theory Spec2Isabelle
  imports Complex_Main "HOL-Library.Word"
begin

section \<open>JavaScript strings\<close>

text \<open>
  A JavaScript string is a sequence of UTF-16 code units. The Vietnamese literals of the
  source are precomposed (NFC) in \<^verbatim>\<open>types.ts\<close>, so each accented letter is one
  code unit; they are written here by their code units.
\<close>

type_synonym jsstring = "16 word list"

definition ascii :: "string \<Rightarrow> jsstring" where
  "ascii s = map (\<lambda>c. of_nat (of_char c)) s"

text \<open>The regular-expression classes \<^verbatim>\<open>\d\<close> and \<^verbatim>\<open>\s\<close>
  (the latter is also the set that \<^verbatim>\<open>String.prototype.trim\<close> strips).\<close>

definition isDigit :: "16 word \<Rightarrow> bool" where
  "isDigit c = (0x30 \<le> c \<and> c \<le> 0x39)"

definition isWhiteSpace :: "16 word \<Rightarrow> bool" where
  "isWhiteSpace c =
     (c \<in> set [0x09, 0x0A, 0x0B, 0x0C, 0x0D, 0x20, 0xA0, 0x1680, 0x2028, 0x2029,
                0x202F, 0x205F, 0x3000, 0xFEFF]
      \<or> (0x2000 \<le> c \<and> c \<le> 0x200A))"

definition trim :: "jsstring \<Rightarrow> jsstring" where
  "trim s = rev (dropWhile isWhiteSpace (rev (dropWhile isWhiteSpace s)))"

text \<open>\<^verbatim>\<open>parseInt\<close> on a string of decimal digits, and the decimal rendering of a
  non-negative integer by a template literal. Both are exact below \<open>2^53\<close>, where
  JavaScript numbers are exact integers.\<close>

definition digitVal :: "16 word \<Rightarrow> int" where
  "digitVal c = int (unat c) - 48"

definition parseInt :: "jsstring \<Rightarrow> int" where
  "parseInt s = foldl (\<lambda>n c. 10 * n + digitVal c) 0 s"

fun showNat :: "nat \<Rightarrow> jsstring" where
  "showNat n = (if n < 10 then [of_nat (48 + n)]
                else showNat (n div 10) @ [of_nat (48 + n mod 10)])"

declare showNat.simps [simp del]

definition showInt :: "int \<Rightarrow> jsstring" where
  "showInt i = (if i < 0 then 0x2D # showNat (nat (- i)) else showNat (nat i))"

text \<open>\<^verbatim>\<open>txt.replace(full, repl)\<close> with a string pattern: the first occurrence of
  \<open>full\<close> is replaced. The replacement strings built by the synthesizer consist of digits,
  \<^verbatim>\<open>-\<close>, \<^verbatim>\<open>/\<close>, \<^verbatim>\<open>%\<close>, white space and unit letters, so the
  \<^verbatim>\<open>$\<close> patterns of \<^verbatim>\<open>replace\<close> never apply.\<close>

definition startsWith :: "jsstring \<Rightarrow> jsstring \<Rightarrow> bool" where
  "startsWith s p = (take (length p) s = p)"

fun replaceFirst :: "jsstring \<Rightarrow> jsstring \<Rightarrow> jsstring \<Rightarrow> jsstring" where
  "replaceFirst [] full repl = (if full = [] then repl else [])"
| "replaceFirst (c # cs) full repl =
     (if startsWith (c # cs) full then repl @ drop (length full) (c # cs)
      else c # replaceFirst cs full repl)"

section \<open>Table Synthesizer: the short-goal rewrite of GENERATE\_IEP\<close>

text \<open>
  Case-insensitive matching (flag \<^verbatim>\<open>i\<close>): two code units match when their
  canonical forms agree, and the canonical form is the upper-case letter. \<open>caseTable\<close>
  lists the lower-case and upper-case forms of the accented letters that occur in the
  patterns of the source; with the ASCII letters these are all the letters of the
  patterns, and no other code unit has one of their upper-case forms as its own (the
  long s and the dotless i keep themselves, since their upper-case forms are ASCII).
\<close>

definition caseTable :: "(16 word \<times> 16 word) list" where
  "caseTable =
     [(0xE0, 0xC0), (0xE1, 0xC1), (0xE2, 0xC2), (0xE3, 0xC3), (0xEA, 0xCA), (0xED, 0xCD),
      (0x103, 0x102), (0x111, 0x110), (0x1B0, 0x1AF), (0x1EA1, 0x1EA0), (0x1EA3, 0x1EA2),
      (0x1EA7, 0x1EA6), (0x1EAD, 0x1EAC), (0x1EBB, 0x1EBA), (0x1EBF, 0x1EBE), (0x1EC1, 0x1EC0),
      (0x1EC3, 0x1EC2), (0x1ECB, 0x1ECA), (0x1ECD, 0x1ECC), (0x1ED1, 0x1ED0), (0x1ED5, 0x1ED4),
      (0x1ED9, 0x1ED8), (0x1EDB, 0x1EDA), (0x1EE3, 0x1EE2), (0x1EEB, 0x1EEA), (0x1EEF, 0x1EEE),
      (0x1EF1, 0x1EF0)]"

definition canonicalize :: "16 word \<Rightarrow> 16 word" where
  "canonicalize c =
     (if 0x61 \<le> c \<and> c \<le> 0x7A then c - 0x20
      else (case map_of caseTable c of Some u \<Rightarrow> u | None \<Rightarrow> c))"

definition matchesCI :: "16 word \<Rightarrow> 16 word \<Rightarrow> bool" where
  "matchesCI p x = (canonicalize x = canonicalize p)"

definition startsWithCI :: "jsstring \<Rightarrow> jsstring \<Rightarrow> bool" where
  "startsWithCI s p = (length p \<le> length s \<and> list_all2 matchesCI p (take (length p) s))"

text \<open>The six unit words of the range pattern (in the source: lan, bac, loai, cau, tu, chu
  with their Vietnamese diacritics), in the order of the alternation. The accented
  letters are written by their code units.\<close>

definition rangeUnits :: "jsstring list" where
  "rangeUnits =
     [[0x6C, 0x1EA7, 0x6E], [0x62, 0x1EAD, 0x63], [0x6C, 0x6F, 0x1EA1, 0x69],
      [0x63, 0xE2, 0x75], [0x74, 0x1EEB], [0x63, 0x68, 0x1EEF]]"

text \<open>The three unit words of the simple-count pattern (the first three of the range
  pattern).\<close>

definition countUnits :: "jsstring list" where
  "countUnits = [[0x6C, 0x1EA7, 0x6E], [0x62, 0x1EAD, 0x63], [0x6C, 0x6F, 0x1EA1, 0x69]]"

text \<open>The first alternative that matches at the start of \<open>s\<close>; the result is the matched
  text of the subject (in its own case).\<close>

fun unitAt :: "jsstring list \<Rightarrow> jsstring \<Rightarrow> jsstring option" where
  "unitAt [] s = None"
| "unitAt (u # us) s =
     (if startsWithCI s u then Some (take (length u) s) else unitAt us s)"

text \<open>
  The match object of
  \<^verbatim>\<open>/(\d{1,2})\s*-\s*(\d{1,2})(\s+(?:U1|U2|U3|U4|U5|U6))?/i\<close>
  (\<open>U1\<close> to \<open>U6\<close> stand for the six unit words):
  the whole match and the three groups (the third is undefined when the optional group
  did not take part).
\<close>

record rangeMatch =
  full :: jsstring
  group1 :: jsstring
  group2 :: jsstring
  group3 :: "jsstring option"

text \<open>
  The attempt at one start position. Every quantifier of the pattern is greedy and
  none can succeed after giving a character back: a shorter \<^verbatim>\<open>\d{1,2}\<close> is followed
  by a digit where \<^verbatim>\<open>\s*-\<close> needs white space or the hyphen, a shorter
  \<^verbatim>\<open>\s*\<close> or \<^verbatim>\<open>\s+\<close> is followed by white space where a hyphen, a digit or a
  letter is needed, and the second \<^verbatim>\<open>\d{1,2}\<close> is followed by an optional group
  only. So the longest run at each step is the only candidate.
\<close>

definition digits12 :: "jsstring \<Rightarrow> jsstring" where
  "digits12 s = takeWhile isDigit (take 2 s)"

definition unitGroup :: "jsstring \<Rightarrow> jsstring option" where
  "unitGroup s =
     (let ws = takeWhile isWhiteSpace s in
      if ws = [] then None
      else (case unitAt rangeUnits (drop (length ws) s) of
              None \<Rightarrow> None
            | Some u \<Rightarrow> Some (ws @ u)))"

definition rangeAt :: "jsstring \<Rightarrow> rangeMatch option" where
  "rangeAt s =
     (let d1 = digits12 s in
      if d1 = [] then None
      else
        let r1 = drop (length d1) s;
            ws1 = takeWhile isWhiteSpace r1;
            r2 = drop (length ws1) r1
        in (case r2 of
              [] \<Rightarrow> None
            | c # r3 \<Rightarrow>
                if c \<noteq> 0x2D then None
                else
                  let ws2 = takeWhile isWhiteSpace r3;
                      r4 = drop (length ws2) r3;
                      d2 = digits12 r4
                  in if d2 = [] then None
                     else
                       let g3 = unitGroup (drop (length d2) r4)
                       in Some \<lparr> full = d1 @ ws1 @ [0x2D] @ ws2 @ d2 @ (case g3 of None \<Rightarrow> [] | Some u \<Rightarrow> u),
                                  group1 = d1, group2 = d2, group3 = g3 \<rparr>))"

text \<open>\<^verbatim>\<open>txt.match(re)\<close> without the global flag: the match at the leftmost start
  position that has one. The text before the match is returned with it (the
  \<^verbatim>\<open>index\<close> of the match object is its length).\<close>

fun rangeSearch :: "jsstring \<Rightarrow> jsstring \<Rightarrow> (jsstring \<times> rangeMatch) option" where
  "rangeSearch pre [] = None"
| "rangeSearch pre (c # cs) =
     (case rangeAt (c # cs) of
        Some m \<Rightarrow> Some (pre, m)
      | None \<Rightarrow> rangeSearch (pre @ [c]) cs)"

text \<open>The ratio pattern \<^verbatim>\<open>/(\d{1,3})\s*\/\s*(\d{1,3})/\<close>: whole match, \<open>x\<close> and \<open>y\<close>.\<close>

definition digits13 :: "jsstring \<Rightarrow> jsstring" where
  "digits13 s = takeWhile isDigit (take 3 s)"

text \<open>Here a shorter first group can succeed only where the longer one failed on a digit,
  and then it fails on the same digit; the candidates are tried from the longest.\<close>

definition ratioAt :: "jsstring \<Rightarrow> (jsstring \<times> jsstring \<times> jsstring) option" where
  "ratioAt s =
     (let d1 = digits13 s in
      if d1 = [] then None
      else
        let r1 = drop (length d1) s;
            ws1 = takeWhile isWhiteSpace r1;
            r2 = drop (length ws1) r1
        in (case r2 of
              [] \<Rightarrow> None
            | c # r3 \<Rightarrow>
                if c \<noteq> 0x2F then None
                else
                  let ws2 = takeWhile isWhiteSpace r3;
                      r4 = drop (length ws2) r3;
                      d2 = digits13 r4
                  in if d2 = [] then None
                     else Some (d1 @ ws1 @ [0x2F] @ ws2 @ d2, d1, d2)))"

fun ratioSearch :: "jsstring \<Rightarrow> (jsstring \<times> jsstring \<times> jsstring) option" where
  "ratioSearch [] = None"
| "ratioSearch (c # cs) =
     (case ratioAt (c # cs) of Some m \<Rightarrow> Some m | None \<Rightarrow> ratioSearch cs)"

text \<open>The percent pattern \<^verbatim>\<open>/(\d+)\s*%/\<close>: whole match and \<open>x\<close>.\<close>

definition pctAt :: "jsstring \<Rightarrow> (jsstring \<times> jsstring) option" where
  "pctAt s =
     (let d = takeWhile isDigit s in
      if d = [] then None
      else
        let r1 = drop (length d) s;
            ws = takeWhile isWhiteSpace r1
        in (case drop (length ws) r1 of
              [] \<Rightarrow> None
            | c # r \<Rightarrow> if c = 0x25 then Some (d @ ws @ [0x25], d) else None))"

fun pctSearch :: "jsstring \<Rightarrow> (jsstring \<times> jsstring) option" where
  "pctSearch [] = None"
| "pctSearch (c # cs) =
     (case pctAt (c # cs) of Some m \<Rightarrow> Some m | None \<Rightarrow> pctSearch cs)"

text \<open>The simple-count pattern \<^verbatim>\<open>/(\d+)\s+(U1|U2|U3)/i\<close>: whole match, \<open>x\<close>
  and the unit as written in the subject.\<close>

definition countAt :: "jsstring \<Rightarrow> (jsstring \<times> jsstring \<times> jsstring) option" where
  "countAt s =
     (let d = takeWhile isDigit s in
      if d = [] then None
      else
        let r1 = drop (length d) s;
            ws = takeWhile isWhiteSpace r1
        in if ws = [] then None
           else (case unitAt countUnits (drop (length ws) r1) of
                   None \<Rightarrow> None
                 | Some u \<Rightarrow> Some (d @ ws @ u, d, u)))"

fun countSearch :: "jsstring \<Rightarrow> (jsstring \<times> jsstring \<times> jsstring) option" where
  "countSearch [] = None"
| "countSearch (c # cs) =
     (case countAt (c # cs) of Some m \<Rightarrow> Some m | None \<Rightarrow> countSearch cs)"

text \<open>\<^verbatim>\<open>Math.round(x/3)\<close> and \<^verbatim>\<open>Math.round(x*2/3)\<close> for a non-negative integer
  \<open>x\<close>: the quotient is never a tie, so rounding is to the nearest integer.\<close>

definition roundDiv3 :: "int \<Rightarrow> int" where
  "roundDiv3 n = (2 * n + 3) div 6"

text \<open>The three short-goal texts of one goal (\<^verbatim>\<open>shortGoalsRaw\<close>, lines 1194 to 1254).\<close>

definition shortGoalsRaw :: "bool \<Rightarrow> jsstring \<Rightarrow> jsstring list" where
  "shortGoalsRaw smartSplitting txt =
     (if smartSplitting then
        (case rangeSearch [] txt of
           Some (pre, m) \<Rightarrow>
             let a = parseInt (group1 m);
                 b = parseInt (group2 m);
                 suffix = (case group3 m of None \<Rightarrow> [] | Some u \<Rightarrow> u)
             in if b > a then
                  let a1 = max 1 (a - 2); b1 = max (a1 + 1) (b - 2);
                      a2 = max 1 (a - 1); b2 = max (a2 + 1) (b - 1)
                  in [replaceFirst txt (full m) (showInt a1 @ [0x2D] @ showInt b1 @ suffix),
                      replaceFirst txt (full m) (showInt a2 @ [0x2D] @ showInt b2 @ suffix),
                      txt]
                else [txt, txt, txt]
         | None \<Rightarrow>
             (case ratioSearch txt of
                Some (fullR, xs, ys) \<Rightarrow>
                  let x = parseInt xs; y = parseInt ys
                  in if x \<le> y then
                       [replaceFirst txt fullR (showInt (max 1 (x - 2)) @ [0x2F] @ showInt y),
                        replaceFirst txt fullR (showInt (max 1 (x - 1)) @ [0x2F] @ showInt y),
                        txt]
                     else [txt, txt, txt]
              | None \<Rightarrow>
                  (case pctSearch txt of
                     Some (fullP, xs) \<Rightarrow>
                       let x = parseInt xs
                       in [replaceFirst txt fullP (showInt (roundDiv3 x) @ [0x25]),
                           replaceFirst txt fullP (showInt (roundDiv3 (x * 2)) @ [0x25]),
                           txt]
                   | None \<Rightarrow>
                       (case countSearch txt of
                          Some (fullC, xs, unit) \<Rightarrow>
                            let x = parseInt xs
                            in [replaceFirst txt fullC (showInt (max 1 (x - 2)) @ [0x20] @ unit),
                                replaceFirst txt fullC (showInt (max 1 (x - 1)) @ [0x20] @ unit),
                                txt]
                        | None \<Rightarrow> [txt, txt, txt]))))
      else [txt, txt, txt])"

section \<open>The document tree\<close>

text \<open>
  The DOM tree that \<^verbatim>\<open>DOMParser\<close> builds from the main document part. An element
  has a qualified name, attributes and children; a text node (or CDATA section) has its
  data; \<open>Misc\<close> stands for a comment or processing instruction, whose \<^verbatim>\<open>nodeName\<close>
  is \<^verbatim>\<open>#comment\<close> or the target.

  Node identity: the source keeps references to elements in snapshots
  (\<^verbatim>\<open>Array.from(getElementsByTagName(..))\<close>) and in the keys of \<^verbatim>\<open>tblNodeMap\<close>, and
  finds them again after the tree has changed. An element built by the parser carries a
  \<open>handle\<close>, unique in the document; an element made by \<^verbatim>\<open>createElement\<close> carries
  none, since the source never looks such an element up by reference.
\<close>

datatype error = Error jsstring | NotFoundError | TypeError | ZipError

datatype node =
    Element (handle: "nat option") (tagName: jsstring)
            (attributes: "(jsstring \<times> jsstring) list") (childNodes: "node list")
  | Text (data: jsstring)
  | Misc (miscName: jsstring) (data: jsstring)

definition bindE :: "error + 'a \<Rightarrow> ('a \<Rightarrow> error + 'b) \<Rightarrow> error + 'b" where
  "bindE m f = (case m of Inl e \<Rightarrow> Inl e | Inr x \<Rightarrow> f x)"

fun isElement :: "node \<Rightarrow> bool" where
  "isElement (Element h n as cs) = True"
| "isElement (Text d) = False"
| "isElement (Misc n d) = False"

fun nodeName :: "node \<Rightarrow> jsstring" where
  "nodeName (Element h n as cs) = n"
| "nodeName (Text d) = ascii ''#text''"
| "nodeName (Misc n d) = n"

fun handleOf :: "node \<Rightarrow> nat option" where
  "handleOf (Element h n as cs) = h"
| "handleOf (Text d) = None"
| "handleOf (Misc n d) = None"

text \<open>\<^verbatim>\<open>a === b\<close> on two nodes of which \<open>b\<close> is a parsed element.\<close>

definition sameNode :: "node \<Rightarrow> node \<Rightarrow> bool" where
  "sameNode a b = (handleOf a \<noteq> None \<and> handleOf a = handleOf b)"

text \<open>\<^verbatim>\<open>textContent\<close>: the data of the text descendants in document order; comments and
  processing instructions below an element do not contribute.\<close>

fun descText :: "node \<Rightarrow> jsstring" where
  "descText (Element h n as cs) = concat (map descText cs)"
| "descText (Text d) = d"
| "descText (Misc n d) = []"

fun textContent :: "node \<Rightarrow> jsstring" where
  "textContent (Misc n d) = d"
| "textContent (Element h n as cs) = descText (Element h n as cs)"
| "textContent (Text d) = d"

text \<open>\<^verbatim>\<open>x.getElementsByTagName(q)\<close>: the element descendants of \<open>x\<close> (not \<open>x\<close> itself)
  with qualified name \<open>q\<close>, in document order.\<close>

fun descendants :: "node \<Rightarrow> node list" where
  "descendants (Element h n as cs) = concat (map (\<lambda>c. c # descendants c) cs)"
| "descendants (Text d) = []"
| "descendants (Misc n d) = []"

definition named :: "jsstring \<Rightarrow> node \<Rightarrow> bool" where
  "named q x = (isElement x \<and> tagName x = q)"

definition getElementsByTagName :: "jsstring \<Rightarrow> node \<Rightarrow> node list" where
  "getElementsByTagName q x = filter (named q) (descendants x)"

text \<open>The handles of the elements of a tree, in document order. They are pairwise
  different in a document that the parser has built.\<close>

fun handles :: "node \<Rightarrow> nat list" where
  "handles (Element h n as cs) = (case h of None \<Rightarrow> [] | Some k \<Rightarrow> [k]) @ concat (map handles cs)"
| "handles (Text d) = []"
| "handles (Misc n d) = []"

text \<open>\<^verbatim>\<open>el.setAttribute(k, v)\<close>, \<^verbatim>\<open>p.appendChild(x)\<close> and
  \<^verbatim>\<open>p.insertBefore(x, p.firstChild)\<close> for a node \<open>x\<close> that is not in the tree yet.\<close>

fun setAttr :: "jsstring \<Rightarrow> jsstring \<Rightarrow> (jsstring \<times> jsstring) list \<Rightarrow> (jsstring \<times> jsstring) list" where
  "setAttr k v [] = [(k, v)]"
| "setAttr k v ((k', v') # as) = (if k' = k then (k, v) # as else (k', v') # setAttr k v as)"

fun setAttribute :: "jsstring \<Rightarrow> jsstring \<Rightarrow> node \<Rightarrow> node" where
  "setAttribute k v (Element h n as cs) = Element h n (setAttr k v as) cs"
| "setAttribute k v (Text d) = Text d"
| "setAttribute k v (Misc n d) = Misc n d"

fun appendChild :: "node \<Rightarrow> node \<Rightarrow> node" where
  "appendChild x (Element h n as cs) = Element h n as (cs @ [x])"
| "appendChild x (Text d) = Text d"
| "appendChild x (Misc n d) = Misc n d"

fun insertFirst :: "node \<Rightarrow> node \<Rightarrow> node" where
  "insertFirst x (Element h n as cs) = Element h n as (x # cs)"
| "insertFirst x (Text d) = Text d"
| "insertFirst x (Misc n d) = Misc n d"

definition createElement :: "jsstring \<Rightarrow> node" where
  "createElement q = Element None q [] []"

text \<open>
  A change at one element below a root, found by a predicate (the first element in
  document order that satisfies it): the step receives the element and its following
  siblings and returns what replaces them, together with the nodes it took out of the
  tree. \<open>None\<close> means that no descendant satisfies the predicate.
\<close>

type_synonym step = "node \<Rightarrow> node list \<Rightarrow> error + (node list \<times> node list)"

fun applyAtL :: "(node \<Rightarrow> bool) \<Rightarrow> step \<Rightarrow> node list \<Rightarrow> (error + (node list \<times> node list)) option"
and applyAtIn :: "(node \<Rightarrow> bool) \<Rightarrow> step \<Rightarrow> node \<Rightarrow> (error + (node \<times> node list)) option" where
  "applyAtL P f [] = None"
| "applyAtL P f (c # cs) =
     (if P c then Some (f c cs)
      else (case applyAtIn P f c of
              Some (Inl e) \<Rightarrow> Some (Inl e)
            | Some (Inr (c', det)) \<Rightarrow> Some (Inr (c' # cs, det))
            | None \<Rightarrow>
                (case applyAtL P f cs of
                   None \<Rightarrow> None
                 | Some (Inl e) \<Rightarrow> Some (Inl e)
                 | Some (Inr (cs', det)) \<Rightarrow> Some (Inr (c # cs', det)))))"
| "applyAtIn P f (Element h n as cs) =
     (case applyAtL P f cs of
        None \<Rightarrow> None
      | Some (Inl e) \<Rightarrow> Some (Inl e)
      | Some (Inr (cs', det)) \<Rightarrow> Some (Inr (Element h n as cs', det)))"
| "applyAtIn P f (Text d) = None"
| "applyAtIn P f (Misc n d) = None"

text \<open>The same for a change of the element alone.\<close>

definition onNode :: "(node \<Rightarrow> error + node) \<Rightarrow> step" where
  "onNode f c cs = bindE (f c) (\<lambda>c'. Inr (c' # cs, []))"

definition modifyFirst :: "(node \<Rightarrow> bool) \<Rightarrow> (node \<Rightarrow> error + node) \<Rightarrow> node \<Rightarrow> (error + node) option" where
  "modifyFirst P f x =
     (case applyAtIn P (onNode f) x of
        None \<Rightarrow> None
      | Some (Inl e) \<Rightarrow> Some (Inl e)
      | Some (Inr (x', det)) \<Rightarrow> Some (Inr x'))"

text \<open>\<^verbatim>\<open>let e = x.getElementsByTagName(q)[0]; if (!e) { e = createElement(q);
  x.appendChild(e); }\<close> followed by changes \<open>f\<close> of \<open>e\<close>.\<close>

definition ensureFirst :: "jsstring \<Rightarrow> (node \<Rightarrow> error + node) \<Rightarrow> node \<Rightarrow> error + node" where
  "ensureFirst q f x =
     (case modifyFirst (named q) f x of
        Some r \<Rightarrow> r
      | None \<Rightarrow> bindE (f (createElement q)) (\<lambda>e. Inr (appendChild e x)))"

text \<open>\<^verbatim>\<open>const e = x.getElementsByTagName(q)[0]; if (e) x.removeChild(e);\<close>: nothing
  happens without such a descendant; \<^verbatim>\<open>removeChild\<close> throws a
  \<^verbatim>\<open>NotFoundError\<close> when the first such descendant is not a child of \<open>x\<close>.\<close>

fun removeFirstL :: "jsstring \<Rightarrow> node list \<Rightarrow> error + node list" where
  "removeFirstL q [] = Inr []"
| "removeFirstL q (c # cs) =
     (if named q c then Inr cs
      else if getElementsByTagName q c \<noteq> [] then Inl NotFoundError
      else bindE (removeFirstL q cs) (\<lambda>cs'. Inr (c # cs')))"

fun removeFirst :: "jsstring \<Rightarrow> node \<Rightarrow> error + node" where
  "removeFirst q (Element h n as cs) = bindE (removeFirstL q cs) (\<lambda>cs'. Inr (Element h n as cs'))"
| "removeFirst q (Text d) = Inr (Text d)"
| "removeFirst q (Misc n d) = Inr (Misc n d)"

text \<open>The names of the WordprocessingML elements and attributes, \<^verbatim>\<open>w:\<close> prefixed.\<close>

definition wq :: "string \<Rightarrow> jsstring" where
  "wq s = ascii ''w:'' @ ascii s"

section \<open>MODULE\_4\_ANALYZE: the issue analyzer\<close>

record options =
  fixBorders :: bool
  fixSpacing :: bool
  autofit :: bool
  mergeNext :: bool
  fixAlign :: bool

text \<open>\<^verbatim>\<open>Mod4TableInfo\<close>; the field \<^verbatim>\<open>id\<close> is \<open>id'\<close> here.\<close>

record Mod4TableInfo =
  id' :: int
  index :: int
  previewHtml :: jsstring
  issues :: "jsstring list"
  canMergeNext :: bool
  isMergeTarget :: bool
  options :: options

text \<open>\<^verbatim>\<open>tbl.nextSibling\<close> and the siblings after it, for the element with handle \<open>k\<close>
  below a root.\<close>

fun siblingsAfterL :: "nat \<Rightarrow> node list \<Rightarrow> node list option"
and siblingsAfterIn :: "nat \<Rightarrow> node \<Rightarrow> node list option" where
  "siblingsAfterL k [] = None"
| "siblingsAfterL k (c # cs) =
     (if handleOf c = Some k then Some cs
      else (case siblingsAfterIn k c of
              Some r \<Rightarrow> Some r
            | None \<Rightarrow> siblingsAfterL k cs))"
| "siblingsAfterIn k (Element h n as cs) = siblingsAfterL k cs"
| "siblingsAfterIn k (Text d) = None"
| "siblingsAfterIn k (Misc n d) = None"

definition nextSiblings :: "node \<Rightarrow> node \<Rightarrow> node list" where
  "nextSiblings doc x =
     (case handleOf x of
        None \<Rightarrow> []
      | Some k \<Rightarrow> (case siblingsAfterIn k doc of None \<Rightarrow> [] | Some r \<Rightarrow> r))"

text \<open>The loop of lines 281 to 290 over \<^verbatim>\<open>sibling\<close>, with \<^verbatim>\<open>gapCount\<close> so far;
  the result is \<^verbatim>\<open>(isCleanGap, gapCount)\<close>.\<close>

fun gapLoop :: "node \<Rightarrow> node list \<Rightarrow> nat \<Rightarrow> bool \<times> nat" where
  "gapLoop nxt [] gapCount = (True, gapCount)"
| "gapLoop nxt (sibling # rest) gapCount =
     (if sameNode sibling nxt then (True, gapCount)
      else if nodeName sibling = wq ''p'' then
        (if length (trim (textContent sibling)) > 0 then (False, gapCount)
         else gapLoop nxt rest (gapCount + 1))
      else if nodeName sibling = wq ''tbl'' then (True, gapCount)
      else gapLoop nxt rest gapCount)"

definition sides :: "jsstring list" where
  "sides = map ascii [''top'', ''left'', ''bottom'', ''right'', ''insideH'', ''insideV'']"

text \<open>The issue texts of lines 267, 271 and 294 and the fallback preview of line 301.\<close>

definition issueNoBorders :: jsstring where
  "issueNoBorders = [0x54, 0x68, 0x69, 0x1EBF, 0x75, 0x20, 0x76, 0x69, 0x1EC1, 0x6E, 0x20,
                     0x62, 0x1EA3, 0x6E, 0x67]"

definition issueIncompleteBorders :: jsstring where
  "issueIncompleteBorders = [0x56, 0x69, 0x1EC1, 0x6E, 0x20, 0x6B, 0x68, 0xF4, 0x6E, 0x67, 0x20,
                             0x111, 0x1EA7, 0x79, 0x20, 0x111, 0x1EE7]"

definition issueCanMerge :: jsstring where
  "issueCanMerge = [0x43, 0xF3, 0x20, 0x74, 0x68, 0x1EC3, 0x20, 0x67, 0x1ED9, 0x70, 0x20, 0x76,
                    0x1EDB, 0x69, 0x20, 0x62, 0x1EA3, 0x6E, 0x67, 0x20, 0x64, 0x1B0, 0x1EDB, 0x69]"

definition noPreview :: jsstring where
  "noPreview = ascii ''<p class='' @ [0x27] @ ascii ''text-xs text-gray-400'' @ [0x27] @ ascii ''>'' @
     [0x4B, 0x68, 0xF4, 0x6E, 0x67, 0x20, 0x74, 0x68, 0x1EC3, 0x20, 0x74, 0x1EA1, 0x6F, 0x20,
      0x62, 0x1EA3, 0x6E, 0x20, 0x78, 0x65, 0x6D, 0x20, 0x74, 0x72, 0x1B0, 0x1EDB, 0x63] @
     ascii ''</p>''"

definition noOptions :: options where
  "noOptions = \<lparr> fixBorders = False, fixSpacing = False, autofit = False, mergeNext = False,
                 fixAlign = False \<rparr>"

text \<open>The border check of lines 264 to 272.\<close>

definition borderIssues :: "node \<Rightarrow> jsstring list" where
  "borderIssues tbl =
     (case (case getElementsByTagName (wq ''tblPr'') tbl of
              [] \<Rightarrow> []
            | tblPr # _ \<Rightarrow> getElementsByTagName (wq ''tblBorders'') tblPr) of
        [] \<Rightarrow> [issueNoBorders]
      | borders # _ \<Rightarrow>
          if list_ex (\<lambda>s. getElementsByTagName (ascii ''w:'' @ s) borders = []) sides
          then [issueIncompleteBorders] else [])"

text \<open>The mergeable check of lines 274 to 296.\<close>

definition mergeable :: "node \<Rightarrow> node list \<Rightarrow> nat \<Rightarrow> bool" where
  "mergeable doc xmlTables idx =
     (if idx + 1 < length xmlTables then
        (case gapLoop (xmlTables ! (idx + 1)) (nextSiblings doc (xmlTables ! idx)) 0 of
           (isCleanGap, gapCount) \<Rightarrow> isCleanGap \<and> gapCount < 5)
      else False)"

text \<open>
  The table infos of step 3 (lines 260 to 314). \<open>htmlTables\<close> are the
  \<^verbatim>\<open>outerHTML\<close> texts of the tables of the Mammoth preview and \<open>now idx\<close> is the value
  of \<^verbatim>\<open>Date.now()\<close> when table \<open>idx\<close> is visited; both come from the platform.
\<close>

definition tableInfo :: "node \<Rightarrow> node list \<Rightarrow> jsstring list \<Rightarrow> (nat \<Rightarrow> int) \<Rightarrow> nat \<Rightarrow> Mod4TableInfo" where
  "tableInfo doc xmlTables htmlTables now idx =
     (let tbl = xmlTables ! idx;
          cm = mergeable doc xmlTables idx
      in \<lparr> id' = now idx + int idx,
           index = int idx,
           previewHtml = (if idx < length htmlTables then htmlTables ! idx else noPreview),
           issues = borderIssues tbl @ (if cm then [issueCanMerge] else []),
           canMergeNext = cm,
           isMergeTarget = False,
           options = noOptions \<rparr>)"

definition tableInfos :: "node \<Rightarrow> jsstring list \<Rightarrow> (nat \<Rightarrow> int) \<Rightarrow> Mod4TableInfo list" where
  "tableInfos doc htmlTables now =
     (let xmlTables = getElementsByTagName (wq ''tbl'') doc
      in map (tableInfo doc xmlTables htmlTables now) [0 ..< length xmlTables])"

section \<open>MODULE\_4\_FIX: merge engine and repair pipeline\<close>

subsection \<open>The merge of a table with the next one (lines 344 to 360)\<close>

text \<open>The loop of lines 348 to 352 over the siblings after \<^verbatim>\<open>tblNode\<close>: the gap nodes,
  and the target table with the siblings after it when there is one.\<close>

fun mergeLoop :: "node list \<Rightarrow> node list \<times> (node \<times> node list) option" where
  "mergeLoop [] = ([], None)"
| "mergeLoop (sibling # rest) =
     (if nodeName sibling = wq ''tbl'' then ([], Some (sibling, rest))
      else (case mergeLoop rest of (gapNodes, t) \<Rightarrow> (sibling # gapNodes, t)))"

text \<open>
  \<^verbatim>\<open>rows.forEach(r => tblNode.appendChild(r))\<close> moves the rows of the snapshot one by
  one, in document order, to the end of \<^verbatim>\<open>tblNode\<close>. A row that lies inside another
  row of the snapshot comes later in the snapshot, so it is taken out of that row when
  its turn comes: every row arrives without the rows that were below it, and what is
  left of the target table has no rows.
\<close>

fun stripTag :: "jsstring \<Rightarrow> node \<Rightarrow> node" where
  "stripTag q (Element h n as cs) =
     Element h n as (map (stripTag q) (filter (\<lambda>c. \<not> named q c) cs))"
| "stripTag q (Text d) = Text d"
| "stripTag q (Misc n d) = Misc n d"

fun appendChildren :: "node list \<Rightarrow> node \<Rightarrow> node" where
  "appendChildren xs (Element h n as cs) = Element h n as (cs @ xs)"
| "appendChildren xs (Text d) = Text d"
| "appendChildren xs (Misc n d) = Misc n d"

definition mergeNextStep :: step where
  "mergeNextStep tblNode siblings =
     (case mergeLoop siblings of
        (gapNodes, None) \<Rightarrow> Inr (tblNode # siblings, [])
      | (gapNodes, Some (targetTbl, rest)) \<Rightarrow>
          if \<not> isElement targetTbl then Inl TypeError
          else
            let rows = getElementsByTagName (wq ''tr'') targetTbl
            in Inr (appendChildren (map (stripTag (wq ''tr'')) rows) tblNode # rest,
                    gapNodes @ [stripTag (wq ''tr'') targetTbl]))"

subsection \<open>The repairs of one table (lines 367 to 509)\<close>

definition setAttrs :: "(jsstring \<times> jsstring) list \<Rightarrow> node \<Rightarrow> error + node" where
  "setAttrs kvs e = Inr (foldl (\<lambda>x (k, v). setAttribute k v x) e kvs)"

text \<open>A. \<^verbatim>\<open>fixBorders\<close> (lines 374 to 388), on the table properties element.\<close>

definition newBorders :: node where
  "newBorders =
     Element None (wq ''tblBorders'') []
       (map (\<lambda>border. Element None (ascii ''w:'' @ border)
                          [(wq ''val'', ascii ''single''), (wq ''sz'', ascii ''4''),
                           (wq ''space'', ascii ''0''), (wq ''color'', ascii ''auto'')] [])
            sides)"

definition fixBordersPr :: "node \<Rightarrow> error + node" where
  "fixBordersPr tblPr =
     bindE (removeFirst (wq ''tblBorders'') tblPr) (\<lambda>pr. Inr (appendChild newBorders pr))"

text \<open>B. \<^verbatim>\<open>autofit\<close> (lines 391 to 406).\<close>

definition autofitPr :: "node \<Rightarrow> error + node" where
  "autofitPr tblPr =
     bindE (ensureFirst (wq ''tblW'')
              (setAttrs [(wq ''w'', ascii ''4250''), (wq ''type'', ascii ''pct'')]) tblPr) (\<lambda>pr1.
     bindE (ensureFirst (wq ''jc'') (setAttrs [(wq ''val'', ascii ''center'')]) pr1) (\<lambda>pr2.
     removeFirst (wq ''tblLayout'') pr2))"

text \<open>C.1 the cell margins of \<^verbatim>\<open>fixSpacing\<close> (lines 411 to 419).\<close>

definition margins :: "(jsstring \<times> jsstring) list" where
  "margins = [(ascii ''top'', ascii ''50''), (ascii ''bottom'', ascii ''50''),
              (ascii ''left'', ascii ''100''), (ascii ''right'', ascii ''100'')]"

definition cellMarginsPr :: "node \<Rightarrow> error + node" where
  "cellMarginsPr tblPr =
     ensureFirst (wq ''tblCellMar'')
       (\<lambda>cellMar.
          foldl (\<lambda>acc (side, val).
                   bindE acc (ensureFirst (ascii ''w:'' @ side)
                                (setAttrs [(wq ''w'', val), (wq ''type'', ascii ''dxa'')])))
                (Inr cellMar) margins)
       tblPr"

definition fixTblPr :: "options \<Rightarrow> node \<Rightarrow> error + node" where
  "fixTblPr opts tblPr =
     bindE (if fixBorders opts then fixBordersPr tblPr else Inr tblPr) (\<lambda>pr1.
     bindE (if autofit opts then autofitPr pr1 else Inr pr1) (\<lambda>pr2.
     (if fixSpacing opts then cellMarginsPr pr2 else Inr pr2)))"

text \<open>Lines 367 to 371: the table properties element is the first \<^verbatim>\<open>w:tblPr\<close>
  descendant of the table; without one, a new one becomes the first child.\<close>

definition withTblPr :: "(node \<Rightarrow> error + node) \<Rightarrow> node \<Rightarrow> error + node" where
  "withTblPr f node =
     (case modifyFirst (named (wq ''tblPr'')) f node of
        Some r \<Rightarrow> r
      | None \<Rightarrow> bindE (f (createElement (wq ''tblPr''))) (\<lambda>tblPr. Inr (insertFirst tblPr node)))"

text \<open>C.2 the gap to the next table (lines 422 to 457). The loop collects the empty
  paragraphs that directly follow the table; they are a prefix of the siblings.\<close>

fun gapNodesLoop :: "node list \<Rightarrow> node list \<times> bool" where
  "gapNodesLoop [] = ([], False)"
| "gapNodesLoop (sibling # rest) =
     (if nodeName sibling = wq ''tbl'' then ([], True)
      else if nodeName sibling = wq ''p'' then
        (if trim (textContent sibling) = [] then
           (case gapNodesLoop rest of (gapNodes, found) \<Rightarrow> (sibling # gapNodes, found))
         else ([], False))
      else ([], False))"

definition fixGap :: "node list \<Rightarrow> node list \<times> node list" where
  "fixGap siblings =
     (case gapNodesLoop siblings of
        (gapNodes, nextTableFound) \<Rightarrow>
          if nextTableFound then
            (if length gapNodes = 0 then (createElement (wq ''p'') # siblings, [])
             else if length gapNodes > 1 then
               (take 1 gapNodes @ drop (length gapNodes) siblings, drop 1 gapNodes)
             else (siblings, []))
          else (siblings, []))"

text \<open>D. \<^verbatim>\<open>fixAlign\<close> (lines 461 to 509). The cells and paragraphs of a snapshot are
  visited by reference; the model finds each one again by its handle.\<close>

definition byHandle :: "nat option \<Rightarrow> node \<Rightarrow> bool" where
  "byHandle h x = (h \<noteq> None \<and> handleOf x = h)"

definition forEachByHandle :: "node list \<Rightarrow> (node \<Rightarrow> error + node) \<Rightarrow> node \<Rightarrow> error + node" where
  "forEachByHandle snapshot f base =
     foldl (\<lambda>acc x. bindE acc (\<lambda>r. case modifyFirst (byHandle (handleOf x)) f r of
                                        None \<Rightarrow> Inr r
                                      | Some res \<Rightarrow> res))
           (Inr base) snapshot"

definition newInd :: node where
  "newInd = Element None (wq ''ind'') [(wq ''left'', ascii ''425''), (wq ''hanging'', ascii ''425'')] []"

text \<open>The test of line 487: the text starts with a hyphen, a plus sign or a bullet
  (U+2022).\<close>

definition isBullet :: "jsstring \<Rightarrow> bool" where
  "isBullet fullText = (case fullText of [] \<Rightarrow> False | c # _ \<Rightarrow> c = 0x2D \<or> c = 0x2B \<or> c = 0x2022)"

definition withPPr :: "(node \<Rightarrow> error + node) \<Rightarrow> node \<Rightarrow> error + node" where
  "withPPr f p =
     (case modifyFirst (named (wq ''pPr'')) f p of
        Some r \<Rightarrow> r
      | None \<Rightarrow> bindE (f (createElement (wq ''pPr''))) (\<lambda>pPr. Inr (insertFirst pPr p)))"

definition fixPara :: "options \<Rightarrow> node \<Rightarrow> error + node" where
  "fixPara opts p =
     bindE (withPPr (removeFirst (wq ''ind'')) p) (\<lambda>p1.
       let fullText = trim (concat (map textContent (getElementsByTagName (wq ''t'') p1)))
       in withPPr (\<lambda>pPr.
            bindE (Inr (if isBullet fullText then appendChild newInd pPr else pPr)) (\<lambda>pPr1.
            bindE (if fixSpacing opts
                   then ensureFirst (wq ''spacing'')
                          (setAttrs [(wq ''before'', ascii ''40''), (wq ''after'', ascii ''40'')]) pPr1
                   else Inr pPr1) (\<lambda>pPr2.
            ensureFirst (wq ''jc'') (setAttrs [(wq ''val'', ascii ''left'')]) pPr2))) p1)"

definition clearCellWidth :: "node \<Rightarrow> error + node" where
  "clearCellWidth cell =
     (case modifyFirst (named (wq ''tcPr''))
             (\<lambda>tcPr. case modifyFirst (named (wq ''tcW''))
                              (setAttrs [(wq ''type'', ascii ''auto''), (wq ''w'', ascii ''0'')]) tcPr of
                        None \<Rightarrow> Inr tcPr
                      | Some r \<Rightarrow> r) cell of
        None \<Rightarrow> Inr cell
      | Some r \<Rightarrow> r)"

definition fixCell :: "options \<Rightarrow> node \<Rightarrow> error + node" where
  "fixCell opts cell =
     bindE (if autofit opts then clearCellWidth cell else Inr cell) (\<lambda>cell1.
     forEachByHandle (getElementsByTagName (wq ''p'') cell1) (fixPara opts) cell1)"

definition fixAlignTable :: "options \<Rightarrow> node \<Rightarrow> error + node" where
  "fixAlignTable opts node = forEachByHandle (getElementsByTagName (wq ''tc'') node) (fixCell opts) node"

text \<open>The body of the loop of lines 364 to 510 for one table that is still in a tree.\<close>

definition tableStep :: "options \<Rightarrow> step" where
  "tableStep opts node siblings =
     bindE (withTblPr (fixTblPr opts) node) (\<lambda>node1.
       case (if fixSpacing opts \<and> \<not> mergeNext opts then fixGap siblings else (siblings, [])) of
         (siblings', removed) \<Rightarrow>
           bindE (if fixAlign opts then fixAlignTable opts node1 else Inr node1) (\<lambda>node2.
             Inr (node2 # siblings', removed)))"

subsection \<open>The whole transformation (lines 319 to 523)\<close>

text \<open>
  The state is the document followed by the trees that were taken out of it. A table is
  found by its handle in any of them; a table that is the root of a removed tree has no
  \<^verbatim>\<open>parentNode\<close> and is skipped (result \<open>None\<close>).
\<close>

fun applyForest :: "nat \<Rightarrow> step \<Rightarrow> node list \<Rightarrow> (error + node list) option" where
  "applyForest k f [] = None"
| "applyForest k f (t # ts) =
     (if handleOf t = Some k then None
      else (case applyAtIn (byHandle (Some k)) f t of
              Some (Inl e) \<Rightarrow> Some (Inl e)
            | Some (Inr (t', removed)) \<Rightarrow> Some (Inr (t' # ts @ removed))
            | None \<Rightarrow>
                (case applyForest k f ts of
                   None \<Rightarrow> None
                 | Some (Inl e) \<Rightarrow> Some (Inl e)
                 | Some (Inr ts') \<Rightarrow> Some (Inr (t # ts')))))"

text \<open>Lines 330 to 335: the map from table elements (by handle) to their configuration,
  in insertion order.\<close>

definition tblNodeMap :: "node \<Rightarrow> Mod4TableInfo list \<Rightarrow> (nat \<times> Mod4TableInfo) list" where
  "tblNodeMap doc mod4TableConfig =
     concat (map (\<lambda>(tbl, i). case (find (\<lambda>c. index c = int i) mod4TableConfig, handleOf tbl) of
                                 (Some conf, Some k) \<Rightarrow> [(k, conf)]
                               | _ \<Rightarrow> [])
                 (zip (getElementsByTagName (wq ''tbl'') doc)
                      [0 ..< length (getElementsByTagName (wq ''tbl'') doc)]))"

text \<open>Lines 338 to 361: the merges, by descending \<^verbatim>\<open>index\<close> (a stable sort).\<close>

definition mergePass :: "(nat \<times> Mod4TableInfo) list \<Rightarrow> Mod4TableInfo list \<Rightarrow> node list \<Rightarrow> error + node list" where
  "mergePass nodeMap mod4TableConfig forest =
     foldl (\<lambda>acc conf.
              bindE acc (\<lambda>fr.
                case find (\<lambda>(k, c). id' c = id' conf) nodeMap of
                  None \<Rightarrow> Inr fr
                | Some (k, c) \<Rightarrow>
                    if mergeNext (options conf) then
                      (case applyForest k mergeNextStep fr of None \<Rightarrow> Inr fr | Some r \<Rightarrow> r)
                    else Inr fr))
           (Inr forest) (sort_key (\<lambda>c. - index c) mod4TableConfig)"

text \<open>Lines 364 to 510: the repairs, in the order of the map.\<close>

definition repairPass :: "(nat \<times> Mod4TableInfo) list \<Rightarrow> node list \<Rightarrow> error + node list" where
  "repairPass nodeMap forest =
     foldl (\<lambda>acc (k, conf).
              bindE acc (\<lambda>fr.
                case applyForest k (tableStep (options conf)) fr of
                  None \<Rightarrow> Inr fr
                | Some r \<Rightarrow> r))
           (Inr forest) nodeMap"

definition fixDocument :: "Mod4TableInfo list \<Rightarrow> node \<Rightarrow> error + node" where
  "fixDocument mod4TableConfig doc =
     bindE (mergePass (tblNodeMap doc mod4TableConfig) mod4TableConfig [doc]) (\<lambda>fr1.
     bindE (repairPass (tblNodeMap doc mod4TableConfig) fr1) (\<lambda>fr2.
     (case fr2 of [] \<Rightarrow> Inr doc | d # _ \<Rightarrow> Inr d)))"

text \<open>
  The uploaded file: its name and, when its bytes are a zip archive, the parts of the
  archive by path (\<^verbatim>\<open>new PizZip(arrayBuffer)\<close> throws otherwise). The parser and
  the serializer are the platform's \<^verbatim>\<open>DOMParser\<close> and \<^verbatim>\<open>XMLSerializer\<close>, taken
  as parameters. A browser's \<^verbatim>\<open>DOMParser\<close> returns a document for every text (an
  error document for text that is not XML); the parameter may also raise, as other
  parsers do.
\<close>

record File =
  name :: jsstring
  parts :: "(jsstring \<times> jsstring) list option"

record CoreOutput =
  blob :: "(jsstring \<times> jsstring) list"
  filename :: jsstring

definition documentPath :: jsstring where
  "documentPath = ascii ''word/document.xml''"

text \<open>\<^verbatim>\<open>pzip.file(path)?.asText() || ""\<close> and \<^verbatim>\<open>pzip.file(path, data)\<close>.\<close>

definition partText :: "(jsstring \<times> jsstring) list \<Rightarrow> jsstring \<Rightarrow> jsstring" where
  "partText pzip path = (case map_of pzip path of None \<Rightarrow> [] | Some s \<Rightarrow> s)"

definition setPart :: "jsstring \<Rightarrow> jsstring \<Rightarrow> (jsstring \<times> jsstring) list \<Rightarrow> (jsstring \<times> jsstring) list" where
  "setPart path d pzip = setAttr path d pzip"

text \<open>\<^verbatim>\<open>name.substring(0, name.lastIndexOf('.')) || "doc"\<close>.\<close>

definition originalName :: "jsstring \<Rightarrow> jsstring \<Rightarrow> jsstring" where
  "originalName nm dflt =
     (let stem = rev (drop 1 (dropWhile (\<lambda>c. c \<noteq> 0x2E) (rev nm)))
      in if stem = [] then dflt else stem)"

definition missingData :: jsstring where
  "missingData = [0x54, 0x68, 0x69, 0x1EBF, 0x75, 0x20, 0x64, 0x1EEF, 0x20, 0x6C, 0x69, 0x1EC7,
                  0x75, 0x2E]"

definition MODULE_4_FIX ::
  "(jsstring \<Rightarrow> error + node) \<Rightarrow> (node \<Rightarrow> jsstring) \<Rightarrow> File option \<Rightarrow> Mod4TableInfo list option \<Rightarrow> error + CoreOutput" where
  "MODULE_4_FIX parseFromString serializeToString mod4File mod4TableConfig =
     (case (mod4File, mod4TableConfig) of
        (Some f, Some cfg) \<Rightarrow>
          (case parts f of
             None \<Rightarrow> Inl ZipError
           | Some pzip \<Rightarrow>
               let xmlStr = partText pzip documentPath
               in bindE (parseFromString xmlStr) (\<lambda>doc.
                  bindE (fixDocument cfg doc) (\<lambda>doc'.
                    Inr \<lparr> blob = setPart documentPath (serializeToString doc') pzip,
                          filename = originalName (name f) (ascii ''doc'') @ ascii ''_fixed.docx'' \<rparr>)))
      | _ \<Rightarrow> Inl (Error missingData))"

section \<open>GENERATE\_DOCX: the field filler (smartFillXML, lines 561 to 792)\<close>

record StudentInfo =
  name' :: jsstring
  dob :: jsstring
  evalDate :: jsstring
  age :: jsstring
  gender :: jsstring
  studentId :: jsstring

text \<open>
  The analysis result is what \<^verbatim>\<open>JSON.parse\<close> made of the service's reply (line 990, of
  \<^verbatim>\<open>{}\<close> for an empty reply), so each of its properties can be missing (\<open>None\<close>). A
  row of the table has its skill name and further string properties (\<^verbatim>\<open>level0\<close> to
  \<^verbatim>\<open>level4\<close>), read by name; percentages are numbers (finite, as JSON has them).
\<close>

record ESDMItem =
  skill :: jsstring
  props :: "(jsstring \<times> jsstring) list"

record ESDMResult =
  table :: "ESDMItem list option"
  percents :: "(jsstring \<times> rat) list option"
  percentsOld :: "(jsstring \<times> rat) list option"
  summary :: jsstring

text \<open>\<^verbatim>\<open>x.toFixed(1)\<close> for \<open>|x| < 10^21\<close>: the nearest number of tenths, the larger one
  of two equally near, written with one decimal.\<close>

definition toFixed1 :: "rat \<Rightarrow> jsstring" where
  "toFixed1 x =
     (let n = nat \<lfloor>10 * \<bar>x\<bar> + 1 / 2\<rfloor>;
          m = showNat (n div 10) @ [0x2E] @ showNat (n mod 10)
      in if x < 0 then 0x2D # m else m)"

text \<open>\<^verbatim>\<open>s.includes(t)\<close> and \<^verbatim>\<open>s.split(c)\<close> for a one-character separator.\<close>

fun includes' :: "jsstring \<Rightarrow> jsstring \<Rightarrow> bool" where
  "includes' [] t = (t = [])"
| "includes' (c # cs) t = (startsWith (c # cs) t \<or> includes' cs t)"

fun splitOn :: "16 word \<Rightarrow> jsstring \<Rightarrow> jsstring list" where
  "splitOn c [] = [[]]"
| "splitOn c (x # xs) =
     (if x = c then [] # splitOn c xs
      else (case splitOn c xs of [] \<Rightarrow> [[x]] | p # ps \<Rightarrow> (x # p) # ps))"

text \<open>\<^verbatim>\<open>formatDateVI\<close> (lines 537 to 548).\<close>

definition formatDateVI :: "jsstring \<Rightarrow> jsstring" where
  "formatDateVI dateString =
     (if dateString = [] then []
      else if 0x2F \<in> set dateString then dateString
      else if length dateString = 4 \<and> list_all isDigit dateString then dateString
      else (case splitOn 0x2D dateString of
              y # m # d # _ \<Rightarrow>
                if y \<noteq> [] \<and> m \<noteq> [] \<and> d \<noteq> [] then d @ [0x2F] @ m @ [0x2F] @ y
                else dateString
            | _ \<Rightarrow> dateString))"

text \<open>The label and value pairs of the \<^verbatim>\<open>infoMap\<close> (lines 573 to 591), in its order.\<close>

definition infoMap :: "StudentInfo \<Rightarrow> (jsstring \<times> jsstring) list" where
  "infoMap info =
     (let displayDob = formatDateVI (dob info);
          displayEvalDate = formatDateVI (evalDate info)
      in [(ascii ''H'' @ [0x1ECD] @ ascii '' v'' @ [0xE0] @ ascii '' t'' @ [0xEA] @ ascii ''n h'' @ [0x1ECD] @ ascii ''c sinh'', name' info),
          (ascii ''H'' @ [0x1ECD] @ ascii '' v'' @ [0xE0] @ ascii '' t'' @ [0xEA] @ ascii ''n tr'' @ [0x1EBB], name' info),
          (ascii ''H'' @ [0x1ECD] @ ascii '' v'' @ [0xE0] @ ascii '' t'' @ [0xEA] @ ascii ''n'', name' info),
          (ascii ''H'' @ [0x1ECD] @ ascii '' t'' @ [0xEA] @ ascii ''n'', name' info),
          (ascii ''T'' @ [0xEA] @ ascii ''n tr'' @ [0x1EBB], name' info),
          (ascii ''Ng'' @ [0xE0] @ ascii ''y th'' @ [0xE1] @ ascii ''ng n'' @ [0x103] @ ascii ''m sinh'', displayDob),
          (ascii ''Ng'' @ [0xE0] @ ascii ''y sinh'', displayDob),
          (ascii ''N'' @ [0x103] @ ascii ''m sinh'', displayDob),
          (ascii ''Ng'' @ [0xE0] @ ascii ''y l'' @ [0x1B0, 0x1EE3] @ ascii ''ng gi'' @ [0xE1], displayEvalDate),
          (ascii ''Ng'' @ [0xE0] @ ascii ''y '' @ [0x111, 0xE1] @ ascii ''nh gi'' @ [0xE1], displayEvalDate),
          (ascii ''Tu'' @ [0x1ED5] @ ascii ''i th'' @ [0x1EF1] @ ascii ''c'', age info),
          ([0x110, 0x1ED9] @ ascii '' tu'' @ [0x1ED5] @ ascii ''i'', age info),
          (ascii ''Tu'' @ [0x1ED5] @ ascii ''i'', age info),
          (ascii ''Gi'' @ [0x1EDB] @ ascii ''i t'' @ [0xED] @ ascii ''nh'', gender info),
          (ascii ''M'' @ [0xE3] @ ascii '' h'' @ [0x1ECD] @ ascii ''c sinh'', studentId info),
          (ascii ''M'' @ [0xE3] @ ascii '' HS'', studentId info),
          (ascii ''M'' @ [0xE3] @ ascii '' s'' @ [0x1ED1], studentId info)])"

text \<open>The test of line 673 and 674: at the start of the text, optional white space, the
  label (flag \<^verbatim>\<open>i\<close>), optional white space, a colon (ASCII or full width).\<close>

definition isColon :: "16 word \<Rightarrow> bool" where
  "isColon c = (c = 0x3A \<or> c = 0xFF1A)"

definition labelMatches :: "jsstring \<Rightarrow> jsstring \<Rightarrow> bool" where
  "labelMatches key fullText =
     (let r1 = dropWhile isWhiteSpace fullText
      in startsWithCI r1 key \<and>
         (case dropWhile isWhiteSpace (drop (length key) r1) of
            [] \<Rightarrow> False
          | c # _ \<Rightarrow> isColon c))"

text \<open>\<^verbatim>\<open>el.textContent = s\<close>: the children are replaced by one text node, or by none
  for the empty string.\<close>

fun setTextContent :: "jsstring \<Rightarrow> node \<Rightarrow> node" where
  "setTextContent s (Element h n as cs) = Element h n as (if s = [] then [] else [Text s])"
| "setTextContent s (Text d) = Text s"
| "setTextContent s (Misc n d) = Misc n s"

text \<open>Lines 671 to 680: the first label with a value that matches rewrites the first
  \<^verbatim>\<open>w:t\<close> of the paragraph and empties the others.\<close>

definition fillInfo :: "(jsstring \<times> jsstring) list \<Rightarrow> node list \<Rightarrow> jsstring \<Rightarrow> node \<Rightarrow> error + node" where
  "fillInfo infos tNodes fullText p =
     (case find (\<lambda>(key, value). value \<noteq> [] \<and> labelMatches key fullText) infos of
        None \<Rightarrow> Inr p
      | Some (key, value) \<Rightarrow>
          bindE (case modifyFirst (named (wq ''t''))
                        (\<lambda>t. Inr (setTextContent (key @ ascii '': '' @ value) t)) p of
                   None \<Rightarrow> Inr p
                 | Some r \<Rightarrow> r) (\<lambda>p1.
          forEachByHandle (drop 1 tNodes) (\<lambda>t. Inr (setTextContent [] t)) p1))"

text \<open>\<^verbatim>\<open>createRun\<close> (lines 627 to 648).\<close>

definition createRun :: "jsstring \<Rightarrow> bool \<Rightarrow> bool \<Rightarrow> node" where
  "createRun text' isRed isBold =
     Element None (wq ''r'') []
       [Element None (wq ''rPr'') []
          ([Element None (wq ''sz'') [(wq ''val'', ascii ''26'')] [],
            Element None (wq ''szCs'') [(wq ''val'', ascii ''26'')] []] @
           (if isBold then [Element None (wq ''b'') [] []] else []) @
           (if isRed then [Element None (wq ''color'') [(wq ''val'', ascii ''FF0000'')] []] else [])),
        setTextContent text' (Element None (wq ''t'') [(ascii ''xml:space'', ascii ''preserve'')] [])]"

text \<open>The texts of lines 601, 615, 617, 652, 656 and 663.\<close>

definition summaryMarker :: jsstring where
  "summaryMarker = ascii ''nh'' @ [0x1EAD] @ ascii ''n '' @ [0x111, 0x1ECB] @ ascii ''nh chung v'' @
                   [0x1EC1] @ ascii '' k'' @ [0x1EBF] @ ascii ''t qu'' @ [0x1EA3]"

definition summaryHead :: jsstring where
  "summaryHead = ascii ''Nh'' @ [0x1EAD] @ ascii ''n '' @ [0x111, 0x1ECB] @ ascii ''nh chung v'' @
                 [0x1EC1] @ ascii '' k'' @ [0x1EBF] @ ascii ''t qu'' @ [0x1EA3]"

definition summaryTail :: jsstring where
  "summaryTail = ascii ''Tu'' @ [0x1ED5] @ ascii ''i ph'' @ [0xE1] @ ascii ''t tri'' @ [0x1EC3] @ ascii ''n''"

definition noLevelsText :: jsstring where
  "noLevelsText = ascii '' Ch'' @ [0x1B0] @ ascii ''a ch'' @ [0x1ECD] @ ascii ''n c'' @ [0x1EA5] @
                  ascii ''p '' @ [0x111, 0x1ED9] @ ascii '' n'' @ [0xE0] @ ascii ''o '' @ [0x111, 0x1EC3] @
                  ascii '' '' @ [0x111, 0xE1] @ ascii ''nh gi'' @ [0xE1] @ ascii ''.''"

definition levelLead :: "int \<Rightarrow> jsstring" where
  "levelLead l = ascii ''c'' @ [0x1EA5] @ ascii ''p '' @ [0x111, 0x1ED9] @ ascii '' '' @ showInt l @
                 ascii '' con '' @ [0x111, 0x1EA1] @ ascii ''t ''"

definition andText :: jsstring where
  "andText = ascii ''. V'' @ [0xE0] @ ascii '' ''"

text \<open>
  The first group of the match of
  \<^verbatim>\<open>/(.*?HEAD.*?[:C])(.*?)(TAIL.*|$)/i\<close> (line 615; \<open>C\<close> is the full-width colon U+FF1A, \<open>HEAD\<close> and \<open>TAIL\<close> are the
  two phrases above). A dot matches every code unit but a line terminator. The lazy
  quantifiers try the shortest runs first: from the leftmost start that has a match, the
  first position of \<open>HEAD\<close> and then the first colon after it for which the rest can
  match, that is, \<open>TAIL\<close> or the end of the text is reached without a line terminator.
\<close>

definition isLineTerminator :: "16 word \<Rightarrow> bool" where
  "isLineTerminator c = (c = 0x0A \<or> c = 0x0D \<or> c = 0x2028 \<or> c = 0x2029)"

fun tailMatches :: "jsstring \<Rightarrow> bool" where
  "tailMatches [] = True"
| "tailMatches (c # cs) =
     (startsWithCI (c # cs) summaryTail \<or> (\<not> isLineTerminator c \<and> tailMatches cs))"

fun colonFrom :: "jsstring \<Rightarrow> nat option" where
  "colonFrom [] = None"
| "colonFrom (c # cs) =
     (if isColon c \<and> tailMatches cs then Some 1
      else if isLineTerminator c then None
      else map_option Suc (colonFrom cs))"

fun headFrom :: "jsstring \<Rightarrow> nat option" where
  "headFrom [] = None"
| "headFrom (c # cs) =
     (case (if startsWithCI (c # cs) summaryHead
            then map_option (\<lambda>j. length summaryHead + j) (colonFrom (drop (length summaryHead) (c # cs)))
            else None) of
        Some n \<Rightarrow> Some n
      | None \<Rightarrow> if isLineTerminator c then None else map_option Suc (headFrom cs))"

fun summaryGroup1 :: "jsstring \<Rightarrow> jsstring option" where
  "summaryGroup1 [] = None"
| "summaryGroup1 (c # cs) =
     (case headFrom (c # cs) of
        Some n \<Rightarrow> Some (take n (c # cs))
      | None \<Rightarrow> summaryGroup1 cs)"

definition summaryPrefix :: "jsstring \<Rightarrow> jsstring" where
  "summaryPrefix fullText =
     (case summaryGroup1 fullText of
        Some g \<Rightarrow> trim g
      | None \<Rightarrow> summaryHead @ ascii '':'')"

text \<open>Lines 650 to 666: the runs for the selected levels. Reading a property of the
  missing \<^verbatim>\<open>percents\<close> raises a \<^verbatim>\<open>TypeError\<close>.\<close>

definition percentText :: "(jsstring \<times> rat) list \<Rightarrow> jsstring \<Rightarrow> jsstring" where
  "percentText ps key =
     replaceFirst (toFixed1 (case map_of ps key of None \<Rightarrow> 0 | Some v \<Rightarrow> v)) [0x2E] [0x2C]"

fun levelRuns :: "(jsstring \<times> rat) list option \<Rightarrow> (jsstring \<times> rat) list option \<Rightarrow> int list \<Rightarrow> error + node list" where
  "levelRuns ps po [] = Inr []"
| "levelRuns ps po (l # ls) =
     (case ps of
        None \<Rightarrow> Inl TypeError
      | Some pn \<Rightarrow>
          let key = ascii ''level'' @ showInt l;
              valNew = percentText pn key;
              value = (case po of
                         None \<Rightarrow> createRun (valNew @ ascii ''%'') True True
                       | Some pold \<Rightarrow>
                           (case map_of pold key of
                              None \<Rightarrow> createRun (valNew @ ascii ''%'') True True
                            | Some v \<Rightarrow>
                                createRun (percentText pold key @ ascii ''% > '' @ valNew @ ascii ''%'')
                                  True True))
          in bindE (levelRuns ps po ls) (\<lambda>runs.
               Inr ([createRun (levelLead l) False False, value,
                     createRun (if ls \<noteq> [] then andText else ascii ''.'') False False] @ runs)))"

fun children :: "node \<Rightarrow> node list" where
  "children (Element h n as cs) = cs"
| "children (Text d) = []"
| "children (Misc n d) = []"

fun setChildren :: "node list \<Rightarrow> node \<Rightarrow> node" where
  "setChildren cs' (Element h n as cs) = Element h n as cs'"
| "setChildren cs' (Text d) = Text d"
| "setChildren cs' (Misc n d) = Misc n d"

text \<open>Lines 602 to 668: the summary paragraph is centred, its children other than a
  \<^verbatim>\<open>w:pPr\<close> child are removed (loop of lines 619 to 625) and the new runs are
  appended.\<close>

definition rebuildSummary :: "ESDMResult \<Rightarrow> int list \<Rightarrow> jsstring \<Rightarrow> node \<Rightarrow> error + node" where
  "rebuildSummary result levels fullText p =
     bindE (withPPr (ensureFirst (wq ''jc'') (setAttrs [(wq ''val'', ascii ''center'')])) p) (\<lambda>p1.
       let prefix = summaryPrefix fullText;
           kept = take 1 (dropWhile (\<lambda>c. nodeName c \<noteq> wq ''pPr'') (children p1))
       in bindE (if levels = [] then Inr [createRun noLevelsText False False]
                 else levelRuns (percents result) (percentsOld result) levels) (\<lambda>runs.
            Inr (setChildren (kept @ [createRun (prefix @ ascii '' '') False True] @ runs) p1)))"

text \<open>The callback of lines 595 to 681 for one paragraph. \<open>toLowerCase\<close> is the platform's
  \<^verbatim>\<open>String.prototype.toLowerCase\<close>.\<close>

definition fillParagraph ::
  "(jsstring \<Rightarrow> jsstring) \<Rightarrow> StudentInfo \<Rightarrow> ESDMResult \<Rightarrow> int list \<Rightarrow> node \<Rightarrow> error + node" where
  "fillParagraph toLowerCase info result levels p =
     (let tNodes = getElementsByTagName (wq ''t'') p
      in if tNodes = [] then Inr p
         else
           let fullText = concat (map textContent tNodes)
           in if includes' (toLowerCase fullText) summaryMarker
              then rebuildSummary result levels fullText p
              else fillInfo (infoMap info) tNodes fullText p)"

definition fillParagraphs ::
  "(jsstring \<Rightarrow> jsstring) \<Rightarrow> StudentInfo \<Rightarrow> ESDMResult \<Rightarrow> int list \<Rightarrow> node \<Rightarrow> error + node" where
  "fillParagraphs toLowerCase info result levels doc =
     forEachByHandle (getElementsByTagName (wq ''p'') doc)
       (fillParagraph toLowerCase info result levels) doc"

subsection \<open>The table filling (lines 683 to 786)\<close>

fun joinWith :: "jsstring \<Rightarrow> jsstring list \<Rightarrow> jsstring" where
  "joinWith sep [] = []"
| "joinWith sep [x] = x"
| "joinWith sep (x # y # ys) = x @ sep @ joinWith sep (y # ys)"

definition getCellText :: "node \<Rightarrow> jsstring" where
  "getCellText cell =
     (case getElementsByTagName (wq ''p'') cell of
        [] \<Rightarrow> textContent cell
      | paragraphs \<Rightarrow>
          joinWith (ascii '' '')
            (map (\<lambda>p. concat (map textContent (getElementsByTagName (wq ''t'') p))) paragraphs))"

text \<open>\<^verbatim>\<open>normalize\<close> (line 691): runs of white space become one space, then
  \<^verbatim>\<open>trim\<close> and \<^verbatim>\<open>toLowerCase\<close>. The flag says that the previous code unit was
  white space.\<close>

fun collapseSpace :: "bool \<Rightarrow> jsstring \<Rightarrow> jsstring" where
  "collapseSpace b [] = []"
| "collapseSpace b (c # cs) =
     (if isWhiteSpace c then (if b then collapseSpace True cs else 0x20 # collapseSpace True cs)
      else c # collapseSpace False cs)"

definition normalize :: "(jsstring \<Rightarrow> jsstring) \<Rightarrow> jsstring \<Rightarrow> jsstring" where
  "normalize toLowerCase str = toLowerCase (trim (collapseSpace False str))"

definition skillMarker :: jsstring where
  "skillMarker = ascii ''k'' @ [0x1EF9] @ ascii '' n'' @ [0x103] @ ascii ''ng''"

definition levelWords :: "jsstring list" where
  "levelWords = [ascii ''c'' @ [0x1EA5] @ ascii ''p '' @ [0x111, 0x1ED9], ascii ''level'']"

text \<open>The digits of the first match of the level pattern of line 708 (one of the two words,
  optional white space, digits).\<close>

fun levelDigitsAt :: "jsstring list \<Rightarrow> jsstring \<Rightarrow> jsstring option" where
  "levelDigitsAt [] s = None"
| "levelDigitsAt (word # ws) s =
     (if startsWith s word \<and> takeWhile isDigit (dropWhile isWhiteSpace (drop (length word) s)) \<noteq> []
      then Some (takeWhile isDigit (dropWhile isWhiteSpace (drop (length word) s)))
      else levelDigitsAt ws s)"

fun levelDigits :: "jsstring \<Rightarrow> jsstring option" where
  "levelDigits [] = None"
| "levelDigits (c # cs) =
     (case levelDigitsAt levelWords (c # cs) of
        Some ds \<Rightarrow> Some ds
      | None \<Rightarrow> levelDigits cs)"

text \<open>\<^verbatim>\<open>columnMap\<close>, an object with integer keys: \<^verbatim>\<open>Object.entries\<close> lists them in
  ascending order.\<close>

fun mapSet :: "nat \<Rightarrow> nat \<Rightarrow> (nat \<times> nat) list \<Rightarrow> (nat \<times> nat) list" where
  "mapSet k v [] = [(k, v)]"
| "mapSet k v ((k', v') # m) =
     (if k = k' then (k, v) # m
      else if k < k' then (k, v) # (k', v') # m
      else (k', v') # mapSet k v m)"

text \<open>Lines 706 to 717: the columns of the header row from the second cell on.\<close>

definition headerColumns :: "(jsstring \<Rightarrow> jsstring) \<Rightarrow> node list \<Rightarrow> (nat \<times> nat) list" where
  "headerColumns toLowerCase cells =
     foldl (\<lambda>columnMap c.
              case levelDigits (normalize toLowerCase (getCellText (cells ! c))) of
                None \<Rightarrow> columnMap
              | Some ds \<Rightarrow>
                  if parseInt ds < 10 then mapSet (nat (parseInt ds)) c columnMap
                  else mapSet (nat (digitVal (hd ds))) c columnMap)
           [] [1 ..< length cells]"

text \<open>Lines 700 to 720: the header among the first five rows.\<close>

fun findHeader :: "(jsstring \<Rightarrow> jsstring) \<Rightarrow> node list \<Rightarrow> (nat \<times> nat) list option" where
  "findHeader toLowerCase [] = None"
| "findHeader toLowerCase (row # rows) =
     (case getElementsByTagName (wq ''tc'') row of
        [] \<Rightarrow> findHeader toLowerCase rows
      | cell0 # cells \<Rightarrow>
          if includes' (normalize toLowerCase (getCellText cell0)) skillMarker
          then Some (headerColumns toLowerCase (cell0 # cells))
          else findHeader toLowerCase rows)"

definition tableHeader :: "(jsstring \<Rightarrow> jsstring) \<Rightarrow> node \<Rightarrow> (nat \<times> nat) list option" where
  "tableHeader toLowerCase tbl = findHeader toLowerCase (take 5 (getElementsByTagName (wq ''tr'') tbl))"

text \<open>Lines 764 to 779: the value goes into the first run of the first paragraph of the
  cell; the other paragraphs of the cell and the other runs of that paragraph are emptied.\<close>

definition fillCell :: "jsstring \<Rightarrow> node \<Rightarrow> error + node" where
  "fillCell val cell =
     (case getElementsByTagName (wq ''p'') cell of
        [] \<Rightarrow>
          Inr (appendChild
                 (Element None (wq ''p'') []
                    [Element None (wq ''r'') [] [setTextContent val (createElement (wq ''t''))]])
                 cell)
      | p0 # others \<Rightarrow>
          bindE (case modifyFirst (named (wq ''p''))
                        (ensureFirst (wq ''r'')
                           (ensureFirst (wq ''t'') (\<lambda>t. Inr (setTextContent val t)))) cell of
                   None \<Rightarrow> Inr cell
                 | Some r \<Rightarrow> r) (\<lambda>cell1.
          bindE (forEachByHandle others (\<lambda>p. Inr (setTextContent [] p)) cell1) (\<lambda>cell2.
            case getElementsByTagName (wq ''p'') cell2 of
              [] \<Rightarrow> Inr cell2
            | p0' # _ \<Rightarrow>
                forEachByHandle (drop 1 (getElementsByTagName (wq ''r'') p0'))
                  (\<lambda>r. Inr (setTextContent [] r)) cell2)))"

text \<open>Lines 746 to 783 for one row. Calling \<^verbatim>\<open>find\<close> on the missing
  \<^verbatim>\<open>result.table\<close> raises a \<^verbatim>\<open>TypeError\<close>.\<close>

definition matchesSkill :: "(jsstring \<Rightarrow> jsstring) \<Rightarrow> jsstring \<Rightarrow> ESDMItem \<Rightarrow> bool" where
  "matchesSkill toLowerCase rowTitle item =
     (let itemSkill = normalize toLowerCase (skill item)
      in itemSkill = rowTitle \<or> startsWith rowTitle itemSkill)"

definition fillRow ::
  "(jsstring \<Rightarrow> jsstring) \<Rightarrow> ESDMResult \<Rightarrow> int list \<Rightarrow> (nat \<times> nat) list \<Rightarrow> node \<Rightarrow> error + node" where
  "fillRow toLowerCase result levels columnMap row =
     (case getElementsByTagName (wq ''tc'') row of
        [] \<Rightarrow> Inr row
      | cell0 # cells \<Rightarrow>
          let rowTitle = normalize toLowerCase (getCellText cell0)
          in if rowTitle = [] \<or> includes' rowTitle skillMarker then Inr row
             else
               (case table result of
                  None \<Rightarrow> Inl TypeError
                | Some items \<Rightarrow>
                    (case find (matchesSkill toLowerCase rowTitle) items of
                       None \<Rightarrow> Inr row
                     | Some matchedSkill \<Rightarrow>
                         foldl (\<lambda>acc (lvl, colIndex).
                                  bindE acc (\<lambda>r.
                                    if int lvl \<in> set levels \<and> colIndex < length (cell0 # cells) then
                                      (case modifyFirst (byHandle (handleOf ((cell0 # cells) ! colIndex)))
                                              (fillCell (case map_of (props matchedSkill)
                                                                (ascii ''level'' @ showNat lvl) of
                                                           None \<Rightarrow> ascii ''-''
                                                         | Some v \<Rightarrow> v)) r of
                                         None \<Rightarrow> Inr r
                                       | Some res \<Rightarrow> res)
                                    else Inr r))
                               (Inr row) columnMap)))"

text \<open>Lines 722 to 785 for the first table with a header.\<close>

definition fillTable ::
  "(jsstring \<Rightarrow> jsstring) \<Rightarrow> ESDMResult \<Rightarrow> int list \<Rightarrow> (nat \<times> nat) list \<Rightarrow> node \<Rightarrow> error + node" where
  "fillTable toLowerCase result levels columnMap tbl =
     bindE (withTblPr (\<lambda>tblPr.
              bindE (ensureFirst (wq ''tblW'')
                       (setAttrs [(wq ''w'', ascii ''4500''), (wq ''type'', ascii ''pct'')]) tblPr) (\<lambda>pr1.
              ensureFirst (wq ''jc'') (setAttrs [(wq ''val'', ascii ''center'')]) pr1)) tbl) (\<lambda>tbl1.
     forEachByHandle (getElementsByTagName (wq ''tr'') tbl)
       (fillRow toLowerCase result levels columnMap) tbl1)"

fun firstHeaderTable :: "(jsstring \<Rightarrow> jsstring) \<Rightarrow> node list \<Rightarrow> (node \<times> (nat \<times> nat) list) option" where
  "firstHeaderTable toLowerCase [] = None"
| "firstHeaderTable toLowerCase (tbl # tables) =
     (case tableHeader toLowerCase tbl of
        Some columnMap \<Rightarrow> Some (tbl, columnMap)
      | None \<Rightarrow> firstHeaderTable toLowerCase tables)"

definition fillTables :: "(jsstring \<Rightarrow> jsstring) \<Rightarrow> ESDMResult \<Rightarrow> int list \<Rightarrow> node \<Rightarrow> error + node" where
  "fillTables toLowerCase result levels doc =
     (case firstHeaderTable toLowerCase (getElementsByTagName (wq ''tbl'') doc) of
        None \<Rightarrow> Inr doc
      | Some (tbl, columnMap) \<Rightarrow>
          (case modifyFirst (byHandle (handleOf tbl))
                  (fillTable toLowerCase result levels columnMap) doc of
             None \<Rightarrow> Inr doc
           | Some r \<Rightarrow> r))"

subsection \<open>smartFillXML and its use by GENERATE\_DOCX\<close>

text \<open>The body of the \<^verbatim>\<open>try\<close> block (lines 563 to 787) up to the serialization.
  \<^verbatim>\<open>parseFromString\<close> is the platform's \<^verbatim>\<open>DOMParser\<close>: it returns a document for
  every text, an error document for a text that is not well-formed XML, and never raises.\<close>

definition smartFillBody ::
  "(jsstring \<Rightarrow> node) \<Rightarrow> (jsstring \<Rightarrow> jsstring) \<Rightarrow>
   jsstring \<Rightarrow> StudentInfo \<Rightarrow> ESDMResult \<Rightarrow> int list \<Rightarrow> error + node" where
  "smartFillBody parseFromString toLowerCase xml info result levels =
     (let doc = parseFromString xml
      in bindE (fillParagraphs toLowerCase info result levels doc) (\<lambda>doc1.
         fillTables toLowerCase result levels doc1))"

text \<open>\<^verbatim>\<open>try { ...; return serializer.serializeToString(doc); } catch (e) { return xml; }\<close>\<close>

definition smartFillXML ::
  "(jsstring \<Rightarrow> node) \<Rightarrow> (node \<Rightarrow> jsstring) \<Rightarrow> (jsstring \<Rightarrow> jsstring) \<Rightarrow>
   jsstring \<Rightarrow> StudentInfo \<Rightarrow> ESDMResult \<Rightarrow> int list \<Rightarrow> jsstring" where
  "smartFillXML parseFromString serializeToString toLowerCase xml info result levels =
     (case smartFillBody parseFromString toLowerCase xml info result levels of
        Inl e \<Rightarrow> xml
      | Inr doc \<Rightarrow> serializeToString doc)"

text \<open>Lines 994 to 1004 of GENERATE\_DOCX: the parts of the template after the smart-fill
  step, as they are handed to the templating library.\<close>

definition smartFillStep ::
  "(jsstring \<Rightarrow> node) \<Rightarrow> (node \<Rightarrow> jsstring) \<Rightarrow> (jsstring \<Rightarrow> jsstring) \<Rightarrow>
   File option \<Rightarrow> StudentInfo option \<Rightarrow> ESDMResult option \<Rightarrow> int list option \<Rightarrow>
   error + (jsstring \<times> jsstring) list" where
  "smartFillStep parseFromString serializeToString toLowerCase templateFile studentInfo esdmResult
       selectedLevels =
     (case (templateFile, studentInfo, esdmResult, selectedLevels) of
        (Some f, Some info, Some result, Some levels) \<Rightarrow>
          (case parts f of
             None \<Rightarrow> Inl ZipError
           | Some pzip \<Rightarrow>
               (case map_of pzip documentPath of
                  None \<Rightarrow> Inr pzip
                | Some originalXml \<Rightarrow>
                    if originalXml = [] then Inr pzip
                    else Inr (setPart documentPath
                                (smartFillXML parseFromString serializeToString toLowerCase
                                   originalXml info result levels) pzip)))
      | _ \<Rightarrow> Inl (Error (ascii ''Missing data'')))"

section \<open>Example documents\<close>

text \<open>Parsed elements with handles, for the concrete instances below. \<open>errorParser\<close> and
  \<open>outline\<close> stand in for the platform parser and serializer there: the parser returns
  an error document, as \<^verbatim>\<open>DOMParser\<close> does for the empty text.\<close>

definition el :: "nat \<Rightarrow> string \<Rightarrow> node list \<Rightarrow> node" where
  "el h n cs = Element (Some h) (wq n) [] cs"

definition docW :: node where
  "docW = Element (Some 0) (ascii ''#document'') [] [el 1 ''document'' [el 2 ''body''
     [el 10 ''tbl'' [], el 11 ''p'' [], el 12 ''p'' [], el 13 ''p'' [], el 14 ''p'' [],
      el 20 ''tbl'' [], el 21 ''p'' [], el 22 ''p'' [], el 23 ''p'' [], el 24 ''p'' [], el 25 ''p'' [],
      el 30 ''tbl'' []]]]"

definition textPara :: "nat \<Rightarrow> string \<Rightarrow> node" where
  "textPara h s = el h ''p'' [el (h + 1) ''r'' [el (h + 2) ''t'' [Text (ascii s)]]]"

definition rowOf :: "nat \<Rightarrow> string \<Rightarrow> node" where
  "rowOf h s = el h ''tr'' [el (h + 1) ''tc'' [textPara (h + 2) s]]"

definition conf :: "int \<Rightarrow> options \<Rightarrow> Mod4TableInfo" where
  "conf i opts = \<lparr> id' = 1000 + i, index = i, previewHtml = [], issues = [],
                   canMergeNext = False, isMergeTarget = False, options = opts \<rparr>"

definition errorDocument :: node where
  "errorDocument =
     Element (Some 0) (ascii ''#document'') []
       [Element (Some 1) (ascii ''parsererror'') [] [Text (ascii ''no element found'')]]"

definition errorParser :: "jsstring \<Rightarrow> error + node" where
  "errorParser xml = Inr errorDocument"

fun outline :: "node \<Rightarrow> jsstring" where
  "outline (Element h n as cs) =
     ascii ''<'' @ n @ ascii ''>'' @ concat (map outline cs) @ ascii ''</'' @ n @ ascii ''>''"
| "outline (Text d) = d"
| "outline (Misc n d) = []"

definition trackedTable :: node where
  "trackedTable =
     el 10 ''tbl''
       [el 11 ''tblPr''
          [el 12 ''tblBorders'' [el 13 ''top'' []],
           el 14 ''tblPrChange'' [el 15 ''tblPr'' [el 16 ''tblBorders'' [el 17 ''top'' []]]]],
        rowOf 20 ''a'']"

definition trackedTableFixed :: node where
  "trackedTableFixed =
     el 10 ''tbl''
       [el 11 ''tblPr''
          [el 14 ''tblPrChange'' [el 15 ''tblPr'' [el 16 ''tblBorders'' [el 17 ''top'' []]]],
           newBorders],
        rowOf 20 ''a'']"

text \<open>\<open>lowerCase\<close> stands in for \<^verbatim>\<open>toLowerCase\<close> in the examples: it agrees with it
  on ASCII and on the Vietnamese letters listed.\<close>

definition lowerCase :: "jsstring \<Rightarrow> jsstring" where
  "lowerCase s =
     map (\<lambda>c. if 0x41 \<le> c \<and> c \<le> 0x5A then c + 0x20
               else (case map_of ((0x1EF8, 0x1EF9) # (0x1A0, 0x1A1) # map (\<lambda>(l, u). (u, l)) caseTable) c of
                       Some l \<Rightarrow> l
                     | None \<Rightarrow> c)) s"

definition runOf :: "nat \<Rightarrow> jsstring \<Rightarrow> node" where
  "runOf h s = el h ''r'' [el (h + 1) ''t'' [Text s]]"

definition cellOf :: "nat \<Rightarrow> jsstring \<Rightarrow> node" where
  "cellOf h s = el h ''tc'' [el (h + 1) ''p'' [runOf (h + 2) s]]"

definition reportBlocks :: "node list" where
  "reportBlocks =
       [el 10 ''p'' [runOf 11 (ascii ''H'' @ [0x1ECC] @ ascii '' T'' @ [0xCA] @ ascii ''N''), runOf 13 (ascii '' : ....'')],
        el 20 ''p'' [runOf 21 (summaryHead @ ascii '' danh gia: xxx'')],
        el 30 ''tbl''
          [el 31 ''tr'' [cellOf 32 (ascii ''K'' @ [0x1EF8] @ ascii '' N'' @ [0x102] @ ascii ''NG''), cellOf 36 (ascii ''Level 1''), cellOf 40 (ascii ''Level 2'')],
           el 50 ''tr'' [cellOf 51 (ascii ''Ch'' @ [0x1A0] @ ascii ''i''), cellOf 55 (ascii ''old''), el 59 ''tc'' []]]]"

definition info0 :: StudentInfo where
  "info0 = \<lparr> name' = ascii ''An'', dob = ascii ''2020-03-15'', evalDate = ascii ''2024'', age = ascii ''4'',
             gender = ascii ''Nam'', studentId = [] \<rparr>"

definition result0 :: ESDMResult where
  "result0 = \<lparr> table = Some [\<lparr> skill = ascii ''ch'' @ [0x1A1] @ ascii ''i'', props = [(ascii ''level1'', ascii ''2/4 => 3/4'')] \<rparr>],
               percents = Some [(ascii ''level1'', 111/2)], percentsOld = Some [(ascii ''level1'', 40)],
               summary = [] \<rparr>"

definition emptyResult :: ESDMResult where
  "emptyResult = \<lparr> table = None, percents = None, percentsOld = None, summary = [] \<rparr>"

text \<open>
  The text of a document as \<^verbatim>\<open>XMLSerializer\<close> writes it, for documents whose texts and
  attribute values hold no markup characters; \<open>parserOf doc\<close> stands in for
  \<^verbatim>\<open>DOMParser\<close> in the examples: it reads the text of \<open>doc\<close> as \<open>doc\<close> and answers
  any other text with an error document. \<open>wordDocument\<close> is a main document part with
  the given blocks in its body.
\<close>

fun xmlText :: "node \<Rightarrow> jsstring" where
  "xmlText (Element h n as cs) =
     (if n = ascii ''#document'' then concat (map xmlText cs)
      else ascii ''<'' @ n @
           concat (map (\<lambda>(k, v). ascii '' '' @ k @ [0x3D, 0x22] @ v @ [0x22]) as) @
           (if cs = [] then ascii ''/>''
            else ascii ''>'' @ concat (map xmlText cs) @ ascii ''</'' @ n @ ascii ''>''))"
| "xmlText (Text d) = d"
| "xmlText (Misc n d) = []"

definition parserOf :: "node \<Rightarrow> jsstring \<Rightarrow> node" where
  "parserOf doc xml = (if xml = xmlText doc then doc else errorDocument)"

definition wordDocument :: "node list \<Rightarrow> node" where
  "wordDocument blocks =
     Element (Some 0) (ascii ''#document'') []
       [Element (Some 1) (wq ''document'')
          [(ascii ''xmlns:w'', ascii ''http://schemas.openxmlformats.org/wordprocessingml/2006/main'')]
          [el 2 ''body'' blocks]]"

definition packageOf :: "node \<Rightarrow> File" where
  "packageOf doc = \<lparr> name = ascii ''report.docx'', parts = Some [(documentPath, xmlText doc)] \<rparr>"

definition fixedPackage :: "node \<Rightarrow> CoreOutput" where
  "fixedPackage doc = \<lparr> blob = [(documentPath, xmlText doc)], filename = ascii ''report_fixed.docx'' \<rparr>"

definition reportDoc :: node where
  "reportDoc = wordDocument reportBlocks"

definition readerOf :: "node \<Rightarrow> jsstring \<Rightarrow> error + node" where
  "readerOf doc xml = Inr (parserOf doc xml)"


text \<open>A table with its properties and one row with one cell, and the line break between
  the elements of an indented part.\<close>

definition tableOf :: "nat \<Rightarrow> string \<Rightarrow> node" where
  "tableOf h s = el h ''tbl'' [el (h + 1) ''tblPr'' [], rowOf (h + 2) s]"


text \<open>A table whose only cell holds a table with one row.\<close>

definition outerTable :: node where
  "outerTable =
     el 50 ''tbl''
       [el 51 ''tblPr'' [],
        el 52 ''tr'' [el 53 ''tc'' [tableOf 60 ''inner'', el 70 ''p'' []]]]"

section \<open>Proofs: the short-goal rewrite\<close>

lemma ws_not_digit: "isWhiteSpace c \<Longrightarrow> \<not> isDigit c"
  unfolding isWhiteSpace_def isDigit_def by (auto simp: word_le_nat_alt)

lemma hyphen_not_digit: "\<not> isDigit 0x2D" by (simp add: isDigit_def)
lemma hyphen_not_ws: "\<not> isWhiteSpace 0x2D" by (simp add: isWhiteSpace_def)

lemma digits12_props: "list_all isDigit (digits12 s) \<and> length (digits12 s) \<le> 2"
  unfolding digits12_def list_all_iff
  by (auto dest: set_takeWhileD intro: order_trans[OF length_takeWhile_le])

lemma digits12_split: "s = digits12 s @ drop (length (digits12 s)) s"
proof -
  have "digits12 s = takeWhile isDigit (take 2 s)" by (simp add: digits12_def)
  have "take 2 s = digits12 s @ dropWhile isDigit (take 2 s)" by (simp add: digits12_def)
  then have "take (length (digits12 s)) (take 2 s) = digits12 s"
    by (metis append_eq_conv_conj)
  moreover have "length (digits12 s) \<le> 2" using digits12_props by blast
  ultimately have "take (length (digits12 s)) s = digits12 s" by (simp add: min_def)
  then show ?thesis by (metis append_take_drop_id)
qed

lemma digits12_exact:
  assumes "list_all isDigit d" "length d \<le> 2" "length d = 2 \<or> (\<exists>x r. t = x # r \<and> \<not> isDigit x)"
  shows "digits12 (d @ t) = d"
  using assms unfolding digits12_def
  by (cases d; cases "tl d"; auto simp: takeWhile_append)

lemma digits12_nonempty:
  "d \<noteq> [] \<Longrightarrow> list_all isDigit d \<Longrightarrow> digits12 (d @ t) \<noteq> []"
  unfolding digits12_def by (cases d) auto

lemma takeWhile_ws_exact:
  "list_all isWhiteSpace ws \<Longrightarrow> \<not> isWhiteSpace x \<Longrightarrow> takeWhile isWhiteSpace (ws @ x # r) = ws"
  by (induction ws) auto


lemma unitAt_SomeD: "unitAt us s = Some u \<Longrightarrow> \<exists>t. s = u @ t"
proof (induction us)
  case Nil
  then show ?case by simp
next
  case (Cons a us)
  show ?case
  proof (cases "startsWithCI s a")
    case True
    with Cons.prems have "u = take (length a) s" by simp
    then have "s = u @ drop (length a) s" by simp
    then show ?thesis ..
  next
    case False
    with Cons show ?thesis by simp
  qed
qed

lemma unitGroup_SomeD: "unitGroup s = Some u \<Longrightarrow> \<exists>t. s = u @ t"
proof -
  assume a: "unitGroup s = Some u"
  define ws where "ws = takeWhile isWhiteSpace s"
  from a obtain v where v: "unitAt rangeUnits (drop (length ws) s) = Some v" "u = ws @ v"
    by (auto simp: unitGroup_def Let_def ws_def split: if_splits option.splits)
  from unitAt_SomeD[OF v(1)] obtain t where "drop (length ws) s = v @ t" by blast
  moreover have "s = ws @ drop (length ws) s" unfolding ws_def
    by (metis takeWhile_dropWhile_id dropWhile_eq_drop)
  ultimately show ?thesis using v(2) by (metis append.assoc)
qed

lemma rangeAt_SomeD:
  assumes "rangeAt s = Some m"
  shows "\<exists>ws1 ws2 rest.
           s = group1 m @ ws1 @ [0x2D] @ ws2 @ group2 m @ rest \<and>
           (\<exists>post. s = full m @ post) \<and>
           full m = group1 m @ ws1 @ [0x2D] @ ws2 @ group2 m @ (case group3 m of None \<Rightarrow> [] | Some u \<Rightarrow> u) \<and>
           list_all isWhiteSpace ws1 \<and> list_all isWhiteSpace ws2 \<and>
           group1 m \<noteq> [] \<and> list_all isDigit (group1 m) \<and> length (group1 m) \<le> 2 \<and>
           group2 m \<noteq> [] \<and> list_all isDigit (group2 m) \<and> length (group2 m) \<le> 2"
proof -
  define d1 where "d1 = digits12 s"
  define r1 where "r1 = drop (length d1) s"
  define ws1 where "ws1 = takeWhile isWhiteSpace r1"
  define r2 where "r2 = drop (length ws1) r1"
  from assms have d1: "d1 \<noteq> []"
    by (auto simp: rangeAt_def Let_def d1_def split: if_splits)
  from assms d1 obtain c r3 where r2: "r2 = c # r3"
    by (cases r2) (auto simp: rangeAt_def Let_def d1_def r1_def ws1_def r2_def split: if_splits)
  define ws2 where "ws2 = takeWhile isWhiteSpace r3"
  define r4 where "r4 = drop (length ws2) r3"
  define d2 where "d2 = digits12 r4"
  define g3 where "g3 = unitGroup (drop (length d2) r4)"
  from assms d1 r2 have c: "c = 0x2D"
    by (auto simp: rangeAt_def Let_def d1_def[symmetric] r1_def[symmetric] ws1_def[symmetric] r2_def[symmetric] split: if_splits)
  from assms d1 r2 c have d2: "d2 \<noteq> []"
    by (auto simp: rangeAt_def Let_def d1_def[symmetric] r1_def[symmetric] ws1_def[symmetric] r2_def[symmetric]
          ws2_def[symmetric] r4_def[symmetric] d2_def[symmetric] split: if_splits)
  from assms d1 r2 c d2 have m: "m = \<lparr> full = d1 @ ws1 @ [0x2D] @ ws2 @ d2 @ (case g3 of None \<Rightarrow> [] | Some u \<Rightarrow> u),
                                  group1 = d1, group2 = d2, group3 = g3 \<rparr>"
    by (auto simp: rangeAt_def Let_def d1_def[symmetric] r1_def[symmetric] ws1_def[symmetric] r2_def[symmetric]
          ws2_def[symmetric] r4_def[symmetric] d2_def[symmetric] g3_def[symmetric] split: if_splits)
  have s1: "s = d1 @ r1" unfolding d1_def r1_def by (rule digits12_split)
  have s2: "r1 = ws1 @ r2" unfolding ws1_def r2_def
    by (metis takeWhile_dropWhile_id dropWhile_eq_drop)
  have s3: "r3 = ws2 @ r4" unfolding ws2_def r4_def
    by (metis takeWhile_dropWhile_id dropWhile_eq_drop)
  have s4: "r4 = d2 @ drop (length d2) r4" unfolding d2_def by (rule digits12_split)
  have s5: "s = d1 @ ws1 @ [0x2D] @ ws2 @ d2 @ drop (length d2) r4"
    using s1 s2 s3 s4 r2 c by simp
  have w: "list_all isWhiteSpace ws1" "list_all isWhiteSpace ws2"
    unfolding ws1_def ws2_def list_all_iff by (auto dest: set_takeWhileD)
  have dd: "list_all isDigit d1 \<and> length d1 \<le> 2" "list_all isDigit d2 \<and> length d2 \<le> 2"
    unfolding d1_def d2_def by (rule digits12_props)+
  have fm: "full m = d1 @ ws1 @ [0x2D] @ ws2 @ d2 @ (case g3 of None \<Rightarrow> [] | Some u \<Rightarrow> u)"
    and gm: "group1 m = d1" "group2 m = d2" "group3 m = g3"
    by (simp_all add: m)
  have p: "\<exists>post. s = full m @ post"
  proof (cases g3)
    case None
    have "s = full m @ drop (length d2) r4" using s5 by (simp add: fm None)
    then show ?thesis ..
  next
    case (Some u)
    then obtain t where t: "drop (length d2) r4 = u @ t"
      using unitGroup_SomeD g3_def by metis
    have "s = full m @ t" by (subst s5) (simp add: fm Some t)
    then show ?thesis ..
  qed
  have "s = group1 m @ ws1 @ [0x2D] @ ws2 @ group2 m @ drop (length d2) r4"
    using s5 by (simp add: gm)
  moreover have "full m = group1 m @ ws1 @ [0x2D] @ ws2 @ group2 m @ (case group3 m of None \<Rightarrow> [] | Some u \<Rightarrow> u)"
    using fm by (simp add: gm)
  ultimately show ?thesis using p w dd d1 d2 unfolding gm by blast
qed

lemma rangeAt_prefix_matches:
  assumes "rangeAt s = Some m"
  shows "rangeAt (full m @ t) \<noteq> None"
proof -
  from rangeAt_SomeD[OF assms] obtain ws1 ws2 where
    f: "full m = group1 m @ ws1 @ [0x2D] @ ws2 @ group2 m @ (case group3 m of None \<Rightarrow> [] | Some u \<Rightarrow> u)"
    and w: "list_all isWhiteSpace ws1" "list_all isWhiteSpace ws2"
    and g1: "group1 m \<noteq> []" "list_all isDigit (group1 m)" "length (group1 m) \<le> 2"
    and g2: "group2 m \<noteq> []" "list_all isDigit (group2 m)" "length (group2 m) \<le> 2"
    by blast
  define tl3 where "tl3 = (case group3 m of None \<Rightarrow> [] | Some u \<Rightarrow> u) @ t"
  define u where "u = ws1 @ [0x2D] @ ws2 @ group2 m @ tl3"
  have ft: "full m @ t = group1 m @ u" by (simp add: f u_def tl3_def)
  have "\<exists>x r. u = x # r \<and> \<not> isDigit x"
    using w(1) by (cases ws1) (auto simp: u_def hyphen_not_digit ws_not_digit)
  then have e1: "digits12 (group1 m @ u) = group1 m"
    using digits12_exact g1 by blast
  have e2: "takeWhile isWhiteSpace u = ws1"
    unfolding u_def using takeWhile_ws_exact[OF w(1) hyphen_not_ws] by simp
  obtain y ys where y: "group2 m = y # ys" "isDigit y" using g2 by (cases "group2 m") auto
  then have "\<not> isWhiteSpace y" using ws_not_digit by blast
  then have e3: "takeWhile isWhiteSpace (ws2 @ group2 m @ tl3) = ws2"
    using takeWhile_ws_exact[OF w(2)] y by simp
  have e4: "digits12 (group2 m @ tl3) \<noteq> []" using digits12_nonempty g2 by blast
  have e2': "drop (length ws1) u = 0x2D # (ws2 @ group2 m @ tl3)"
    by (simp add: u_def)
  have e3': "drop (length ws2) (ws2 @ group2 m @ tl3) = group2 m @ tl3" by simp
  show ?thesis
    unfolding ft rangeAt_def using g1(1) e4
    by (simp add: e1 e2 e2' e3 e3' Let_def)
qed


lemma rangeSearch_SomeD:
  "rangeSearch acc s = Some (p, m) \<Longrightarrow>
     \<exists>mid rest. p = acc @ mid \<and> s = mid @ rest \<and> rangeAt rest = Some m \<and>
       (\<forall>k < length mid. rangeAt (drop k s) = None)"
proof (induction s arbitrary: acc)
  case Nil
  then show ?case by simp
next
  case (Cons c cs)
  show ?case
  proof (cases "rangeAt (c # cs)")
    case (Some m')
    with Cons.prems have "p = acc" "m' = m" by auto
    with Some have "p = acc @ [] \<and> c # cs = [] @ (c # cs) \<and> rangeAt (c # cs) = Some m \<and>
       (\<forall>k < length ([]::jsstring). rangeAt (drop k (c # cs)) = None)" by simp
    then show ?thesis by blast
  next
    case None
    with Cons.prems have "rangeSearch (acc @ [c]) cs = Some (p, m)" by simp
    from Cons.IH[OF this] obtain mid rest where
      h: "p = (acc @ [c]) @ mid" "cs = mid @ rest" "rangeAt rest = Some m"
         "\<forall>k < length mid. rangeAt (drop k cs) = None" by blast
    have "\<forall>k < length (c # mid). rangeAt (drop k (c # cs)) = None"
    proof (intro allI impI)
      fix k assume "k < length (c # mid)"
      then show "rangeAt (drop k (c # cs)) = None"
        using None h(4) by (cases k) auto
    qed
    with h have "p = acc @ (c # mid) \<and> c # cs = (c # mid) @ rest \<and> rangeAt rest = Some m \<and>
       (\<forall>k < length (c # mid). rangeAt (drop k (c # cs)) = None)" by simp
    then show ?thesis by blast
  qed
qed

lemma replaceFirst_at:
  "\<forall>k < length pre. \<not> startsWith (drop k (pre @ f @ post)) f \<Longrightarrow>
     replaceFirst (pre @ f @ post) f r = pre @ r @ post"
proof (induction pre)
  case Nil
  have sw: "startsWith (f @ post) f" by (simp add: startsWith_def)
  show ?case
  proof (cases "f @ post")
    case Nil
    then show ?thesis by simp
  next
    case (Cons a list)
    have "replaceFirst (a # list) f r = r @ drop (length f) (a # list)"
      using sw Cons by simp
    then have "replaceFirst (f @ post) f r = r @ drop (length f) (f @ post)"
      unfolding Cons .
    then show ?thesis by simp
  qed
next
  case (Cons c pre)
  have "0 < length (c # pre)" by simp
  with Cons.prems have "\<not> startsWith (drop 0 ((c # pre) @ f @ post)) f" by blast
  then have n0: "\<not> startsWith (c # (pre @ f @ post)) f" by simp
  have "\<forall>k < length pre. \<not> startsWith (drop k (pre @ f @ post)) f"
  proof (intro allI impI)
    fix k assume "k < length pre"
    then have "Suc k < length (c # pre)" by simp
    with Cons.prems have "\<not> startsWith (drop (Suc k) ((c # pre) @ f @ post)) f" by blast
    then show "\<not> startsWith (drop k (pre @ f @ post)) f" by simp
  qed
  from Cons.IH[OF this] n0 show ?case by simp
qed

lemma startsWith_decomp: "startsWith u f \<Longrightarrow> u = f @ drop (length f) u"
  unfolding startsWith_def by (metis append_take_drop_id)

lemma rangeAt_full_prefix:
  assumes "rangeAt s = Some m"
  obtains post where "s = full m @ post"
proof -
  from rangeAt_SomeD[OF assms] have "\<exists>post. s = full m @ post"
    by (elim exE conjE) (rule exI)
  then show ?thesis using that by (elim exE)
qed

lemma range_replace:
  assumes "rangeSearch [] txt = Some (pre, m)"
  shows "\<exists>post. txt = pre @ full m @ post \<and> rangeAt (full m @ post) = Some m \<and>
           (\<forall>r. replaceFirst txt (full m) r = pre @ r @ post)"
proof -
  from rangeSearch_SomeD[OF assms] obtain mid rest where
    h0: "pre = [] @ mid" "txt = mid @ rest" "rangeAt rest = Some m"
       "\<forall>k < length mid. rangeAt (drop k txt) = None" by (elim exE conjE)
  have h: "txt = pre @ rest" "\<forall>k < length pre. rangeAt (drop k txt) = None"
    using h0 by simp_all
  obtain post where r: "rest = full m @ post"
    by (rule rangeAt_full_prefix[OF h0(3)])
  have te: "txt = pre @ full m @ post" using h(1) r by simp
  have "\<forall>k < length pre. \<not> startsWith (drop k (pre @ full m @ post)) (full m)"
  proof (intro allI impI notI)
    fix k assume k: "k < length pre" and sw: "startsWith (drop k (pre @ full m @ post)) (full m)"
    define t where "t = drop (length (full m)) (drop k txt)"
    have t: "drop k txt = full m @ t"
      unfolding t_def te by (rule startsWith_decomp[OF sw])
    have "rangeAt (full m @ t) \<noteq> None"
      by (rule rangeAt_prefix_matches[OF h0(3)])
    then have ne: "rangeAt (drop k txt) \<noteq> None"
      by (subst t)
    have "rangeAt (drop k txt) = None"
      by (rule h(2)[rule_format, OF k])
    with ne show False by (rule notE)
  qed
  then have rp: "replaceFirst txt (full m) x = pre @ x @ post" for x
    unfolding te by (rule replaceFirst_at)
  have "txt = pre @ full m @ post \<and> rangeAt (full m @ post) = Some m \<and>
           (\<forall>r. replaceFirst txt (full m) r = pre @ r @ post)"
    using te h0(3) rp unfolding r by simp
  then show ?thesis by (rule exI)
qed


lemma shortGoalsRaw_range:
  assumes "rangeSearch [] txt = Some (pre, m)"
    and "parseInt (group1 m) < parseInt (group2 m)"
  shows "\<exists>post. txt = pre @ full m @ post \<and>
     shortGoalsRaw True txt =
       [pre @ (showInt (max 1 (parseInt (group1 m) - 2)) @ [0x2D] @
               showInt (max (max 1 (parseInt (group1 m) - 2) + 1) (parseInt (group2 m) - 2)) @
               (case group3 m of None \<Rightarrow> [] | Some u \<Rightarrow> u)) @ post,
        pre @ (showInt (max 1 (parseInt (group1 m) - 1)) @ [0x2D] @
               showInt (max (max 1 (parseInt (group1 m) - 1) + 1) (parseInt (group2 m) - 1)) @
               (case group3 m of None \<Rightarrow> [] | Some u \<Rightarrow> u)) @ post,
        txt]"
proof -
  from range_replace[OF assms(1)] obtain post where
    p: "txt = pre @ full m @ post" "\<forall>r. replaceFirst txt (full m) r = pre @ r @ post"
    by (elim exE conjE)
  have "shortGoalsRaw True txt =
       [pre @ (showInt (max 1 (parseInt (group1 m) - 2)) @ [0x2D] @
               showInt (max (max 1 (parseInt (group1 m) - 2) + 1) (parseInt (group2 m) - 2)) @
               (case group3 m of None \<Rightarrow> [] | Some u \<Rightarrow> u)) @ post,
        pre @ (showInt (max 1 (parseInt (group1 m) - 1)) @ [0x2D] @
               showInt (max (max 1 (parseInt (group1 m) - 1) + 1) (parseInt (group2 m) - 1)) @
               (case group3 m of None \<Rightarrow> [] | Some u \<Rightarrow> u)) @ post,
        txt]"
    unfolding shortGoalsRaw_def using assms p(2) by (simp add: Let_def)
  with p(1) show ?thesis by blast
qed



lemma rangeAt_10_14:
  "rangeAt (ascii ''10-14 '' @ [0x6C, 0x1EA7, 0x6E] @ post) =
     Some \<lparr> full = ascii ''10-14 '' @ [0x6C, 0x1EA7, 0x6E], group1 = ascii ''10'',
            group2 = ascii ''14'', group3 = Some (ascii '' '' @ [0x6C, 0x1EA7, 0x6E]) \<rparr>"
  by (simp add: rangeAt_def digits12_def unitGroup_def rangeUnits_def startsWithCI_def
      matchesCI_def canonicalize_def caseTable_def ascii_def isDigit_def isWhiteSpace_def Let_def)

lemma showInt_small:
  "showInt 8 = ascii ''8''" "showInt 9 = ascii ''9''" "showInt 12 = ascii ''12''"
  "showInt 13 = ascii ''13''"
  by (simp_all add: showInt_def showNat.simps ascii_def)

lemma parseInt_10_14: "parseInt (ascii ''10'') = 10" "parseInt (ascii ''14'') = 14"
  by (simp_all add: parseInt_def digitVal_def ascii_def)

text \<open>
  Claim C2 (as amended). For a long-term goal text in which the first match of the range
  pattern is \<^verbatim>\<open>10-14 U1\<close> (\<open>U1\<close> the first unit word), the synthesizer with
  \<open>smartSplitting = true\<close> yields the rows \<^verbatim>\<open>8-12 U1\<close>, \<^verbatim>\<open>9-13 U1\<close> and
  the unmodified \<^verbatim>\<open>10-14 U1\<close>, each in its
  surrounding text; and for every text whose first range match has \<open>a < b\<close>, the four
  bounds written into the two rewritten rows are at least 1.
\<close>

theorem range_10_14_rows:
  "(rangeSearch [] (pre @ ascii ''10-14 '' @ [0x6C, 0x1EA7, 0x6E] @ post) = Some (pre, m) \<longrightarrow>
      shortGoalsRaw True (pre @ ascii ''10-14 '' @ [0x6C, 0x1EA7, 0x6E] @ post) =
        [pre @ ascii ''8-12 '' @ [0x6C, 0x1EA7, 0x6E] @ post,
         pre @ ascii ''9-13 '' @ [0x6C, 0x1EA7, 0x6E] @ post,
         pre @ ascii ''10-14 '' @ [0x6C, 0x1EA7, 0x6E] @ post]) \<and>
   (rangeSearch [] txt' = Some (pre', m') \<and> parseInt (group1 m') < parseInt (group2 m') \<longrightarrow>
      (\<exists>a1 b1 a2 b2 suffix post'.
         shortGoalsRaw True txt' =
           [pre' @ showInt a1 @ [0x2D] @ showInt b1 @ suffix @ post',
            pre' @ showInt a2 @ [0x2D] @ showInt b2 @ suffix @ post',
            txt'] \<and>
         1 \<le> a1 \<and> 1 \<le> b1 \<and> 1 \<le> a2 \<and> 1 \<le> b2))"
proof (intro conjI impI)
  define r where "r = ascii ''10-14 '' @ [0x6C, 0x1EA7, 0x6E :: 16 word]"
  assume a: "rangeSearch [] (pre @ ascii ''10-14 '' @ [0x6C, 0x1EA7, 0x6E] @ post) = Some (pre, m)"
  from rangeSearch_SomeD[OF a] obtain mid rest where
    h: "pre = [] @ mid" "pre @ ascii ''10-14 '' @ [0x6C, 0x1EA7, 0x6E] @ post = mid @ rest"
       "rangeAt rest = Some m"
    by (elim exE conjE)
  from h(1) h(2) have "rest = ascii ''10-14 '' @ [0x6C, 0x1EA7, 0x6E] @ post" by simp
  with h(3) have "rangeAt (ascii ''10-14 '' @ [0x6C, 0x1EA7, 0x6E] @ post) = Some m"
    by (simp only:)
  then have m: "m = \<lparr> full = ascii ''10-14 '' @ [0x6C, 0x1EA7, 0x6E], group1 = ascii ''10'',
            group2 = ascii ''14'', group3 = Some (ascii '' '' @ [0x6C, 0x1EA7, 0x6E]) \<rparr>"
    unfolding rangeAt_10_14 by simp
  have lt: "parseInt (group1 m) < parseInt (group2 m)"
    by (simp add: m parseInt_10_14)
  from shortGoalsRaw_range[OF a lt] obtain post' where
    p: "pre @ ascii ''10-14 '' @ [0x6C, 0x1EA7, 0x6E] @ post = pre @ full m @ post'" and
    g: "shortGoalsRaw True (pre @ ascii ''10-14 '' @ [0x6C, 0x1EA7, 0x6E] @ post) =
       [pre @ (showInt (max 1 (parseInt (group1 m) - 2)) @ [0x2D] @
               showInt (max (max 1 (parseInt (group1 m) - 2) + 1) (parseInt (group2 m) - 2)) @
               (case group3 m of None \<Rightarrow> [] | Some u \<Rightarrow> u)) @ post',
        pre @ (showInt (max 1 (parseInt (group1 m) - 1)) @ [0x2D] @
               showInt (max (max 1 (parseInt (group1 m) - 1) + 1) (parseInt (group2 m) - 1)) @
               (case group3 m of None \<Rightarrow> [] | Some u \<Rightarrow> u)) @ post',
        pre @ ascii ''10-14 '' @ [0x6C, 0x1EA7, 0x6E] @ post]"
    by (elim exE conjE)
  from p have pp: "post' = post" by (simp add: m)
  show "shortGoalsRaw True (pre @ ascii ''10-14 '' @ [0x6C, 0x1EA7, 0x6E] @ post) =
        [pre @ ascii ''8-12 '' @ [0x6C, 0x1EA7, 0x6E] @ post,
         pre @ ascii ''9-13 '' @ [0x6C, 0x1EA7, 0x6E] @ post,
         pre @ ascii ''10-14 '' @ [0x6C, 0x1EA7, 0x6E] @ post]"
    unfolding g pp by (simp add: m parseInt_10_14 showInt_small) (simp add: ascii_def)
next
  assume b: "rangeSearch [] txt' = Some (pre', m') \<and> parseInt (group1 m') < parseInt (group2 m')"
  from shortGoalsRaw_range[of txt' pre' m'] b obtain post' where
    g: "shortGoalsRaw True txt' =
       [pre' @ (showInt (max 1 (parseInt (group1 m') - 2)) @ [0x2D] @
               showInt (max (max 1 (parseInt (group1 m') - 2) + 1) (parseInt (group2 m') - 2)) @
               (case group3 m' of None \<Rightarrow> [] | Some u \<Rightarrow> u)) @ post',
        pre' @ (showInt (max 1 (parseInt (group1 m') - 1)) @ [0x2D] @
               showInt (max (max 1 (parseInt (group1 m') - 1) + 1) (parseInt (group2 m') - 1)) @
               (case group3 m' of None \<Rightarrow> [] | Some u \<Rightarrow> u)) @ post',
        txt']"
    by (elim conjE exE) blast
  define a1 where "a1 = max 1 (parseInt (group1 m') - 2)"
  define b1 where "b1 = max (a1 + 1) (parseInt (group2 m') - 2)"
  define a2 where "a2 = max 1 (parseInt (group1 m') - 1)"
  define b2 where "b2 = max (a2 + 1) (parseInt (group2 m') - 1)"
  define suffix where "suffix = (case group3 m' of None \<Rightarrow> [] | Some u \<Rightarrow> u)"
  have "shortGoalsRaw True txt' =
           [pre' @ showInt a1 @ [0x2D] @ showInt b1 @ suffix @ post',
            pre' @ showInt a2 @ [0x2D] @ showInt b2 @ suffix @ post',
            txt'] \<and>
         1 \<le> a1 \<and> 1 \<le> b1 \<and> 1 \<le> a2 \<and> 1 \<le> b2"
    unfolding g a1_def b1_def a2_def b2_def suffix_def by (simp add: max_def)
  then show "\<exists>a1 b1 a2 b2 suffix post'.
         shortGoalsRaw True txt' =
           [pre' @ showInt a1 @ [0x2D] @ showInt b1 @ suffix @ post',
            pre' @ showInt a2 @ [0x2D] @ showInt b2 @ suffix @ post',
            txt'] \<and>
         1 \<le> a1 \<and> 1 \<le> b1 \<and> 1 \<le> a2 \<and> 1 \<le> b2"
    by blast
qed

text \<open>The rows stated by claim C2 (\<^verbatim>\<open>6-10 U1\<close>, \<^verbatim>\<open>8-12 U1\<close>,
  \<^verbatim>\<open>10-14 U1\<close>) are not the rows the synthesizer produces for
  \<^verbatim>\<open>10-14 U1\<close>.\<close>

theorem range_10_14_claimed_rows_counterexample:
  "shortGoalsRaw True (ascii ''10-14 '' @ [0x6C, 0x1EA7, 0x6E]) \<noteq>
     [ascii ''6-10 '' @ [0x6C, 0x1EA7, 0x6E], ascii ''8-12 '' @ [0x6C, 0x1EA7, 0x6E],
      ascii ''10-14 '' @ [0x6C, 0x1EA7, 0x6E]]"
  by code_simp




theorem range_10_14_rows_witness:
  "rangeSearch [] (ascii ''vo tay '' @ ascii ''10-14 '' @ [0x6C, 0x1EA7, 0x6E] @ ascii ''/ngay'') =
     Some (ascii ''vo tay '',
           \<lparr> full = ascii ''10-14 '' @ [0x6C, 0x1EA7, 0x6E], group1 = ascii ''10'',
             group2 = ascii ''14'', group3 = Some (ascii '' '' @ [0x6C, 0x1EA7, 0x6E]) \<rparr>) \<and>
   shortGoalsRaw True (ascii ''vo tay '' @ ascii ''10-14 '' @ [0x6C, 0x1EA7, 0x6E] @ ascii ''/ngay'') =
     [ascii ''vo tay '' @ ascii ''8-12 '' @ [0x6C, 0x1EA7, 0x6E] @ ascii ''/ngay'',
      ascii ''vo tay '' @ ascii ''9-13 '' @ [0x6C, 0x1EA7, 0x6E] @ ascii ''/ngay'',
      ascii ''vo tay '' @ ascii ''10-14 '' @ [0x6C, 0x1EA7, 0x6E] @ ascii ''/ngay''] \<and>
   rangeSearch [] (ascii ''1-2'') =
     Some ([], \<lparr> full = ascii ''1-2'', group1 = ascii ''1'', group2 = ascii ''2'', group3 = None \<rparr>) \<and>
   parseInt (ascii ''1'') < parseInt (ascii ''2'') \<and>
   (\<exists>a1 b1 a2 b2 suffix post'.
      shortGoalsRaw True (ascii ''1-2'') =
        [[] @ showInt a1 @ [0x2D] @ showInt b1 @ suffix @ post',
         [] @ showInt a2 @ [0x2D] @ showInt b2 @ suffix @ post',
         ascii ''1-2''] \<and>
      1 \<le> a1 \<and> 1 \<le> b1 \<and> 1 \<le> a2 \<and> 1 \<le> b2)"
proof -
  define m where "m = \<lparr> full = ascii ''10-14 '' @ [0x6C, 0x1EA7, 0x6E], group1 = ascii ''10'',
             group2 = ascii ''14'', group3 = Some (ascii '' '' @ [0x6C, 0x1EA7, 0x6E]) \<rparr>"
  define m' where "m' = \<lparr> full = ascii ''1-2'', group1 = ascii ''1'', group2 = ascii ''2'',
             group3 = None \<rparr>"
  have h1: "rangeSearch [] (ascii ''vo tay '' @ ascii ''10-14 '' @ [0x6C, 0x1EA7, 0x6E] @ ascii ''/ngay'') =
              Some (ascii ''vo tay '', m)"
    unfolding m_def by code_simp
  have h2: "rangeSearch [] (ascii ''1-2'') = Some ([], m')"
    unfolding m'_def by code_simp
  have h3: "parseInt (ascii ''1'') < parseInt (ascii ''2'')"
    by (simp add: parseInt_def digitVal_def ascii_def)
  have h4: "parseInt (group1 m') < parseInt (group2 m')"
    using h3 by (simp add: m'_def)
  from range_10_14_rows[of "ascii ''vo tay ''" "ascii ''/ngay''" m "ascii ''1-2''" "[]" m'] h1 h2 h4
  show ?thesis using h3 unfolding m_def m'_def by blast
qed

section \<open>Proofs: analyzer, merge engine and repair pipeline\<close>

lemma wq_p_ne_tbl: "wq ''p'' \<noteq> wq ''tbl''"
  by (simp add: wq_def ascii_def)

lemma gapLoop_empty_paras:
  assumes "\<forall>g \<in> set gap. nodeName g = wq ''p'' \<and> trim (textContent g) = [] \<and> \<not> sameNode g nxt"
    and "nodeName t = wq ''tbl''"
  shows "gapLoop nxt (gap @ t # rest) c = (True, c + length gap)"
  using assms
proof (induction gap arbitrary: c)
  case Nil
  then show ?case by (simp add: wq_p_ne_tbl[symmetric])
next
  case (Cons g gap)
  then show ?case by simp
qed

text \<open>
  Claim C5. In MODULE\_4\_ANALYZE, a table that is followed by \<open>length gap\<close> empty paragraphs
  and then by a table is flagged \<^verbatim>\<open>canMergeNext\<close> exactly when \<open>length gap < 5\<close>: a gap
  of 4 is flagged, a gap of 5 is not.
\<close>

theorem analyzer_gap_threshold:
  assumes "xmlTables = getElementsByTagName (wq ''tbl'') doc"
    and "idx + 1 < length xmlTables"
    and "nextSiblings doc (xmlTables ! idx) = gap @ t # rest"
    and "\<forall>g \<in> set gap. nodeName g = wq ''p'' \<and> trim (textContent g) = [] \<and>
                       \<not> sameNode g (xmlTables ! (idx + 1))"
    and "nodeName t = wq ''tbl''"
  shows "canMergeNext (tableInfos doc htmlTables now ! idx) = (length gap < 5)"
proof -
  have i: "idx < length xmlTables" using assms(2) by simp
  have "tableInfos doc htmlTables now ! idx = tableInfo doc xmlTables htmlTables now idx"
    using i unfolding tableInfos_def assms(1) Let_def by simp
  moreover have "mergeable doc xmlTables idx = (length gap < 5)"
    unfolding mergeable_def
    using assms(2) gapLoop_empty_paras[OF assms(4) assms(5), of rest 0]
    by (simp add: assms(3))
  ultimately show ?thesis by (simp add: tableInfo_def Let_def)
qed

theorem analyzer_gap_threshold_witness:
  "canMergeNext (tableInfos docW [] (\<lambda>i. 0) ! 0) \<and> \<not> canMergeNext (tableInfos docW [] (\<lambda>i. 0) ! 1)"
proof -
  define xs where "xs = getElementsByTagName (wq ''tbl'') docW"
  have xs: "xs = [el 10 ''tbl'' [], el 20 ''tbl'' [], el 30 ''tbl'' []]"
    unfolding xs_def by code_simp
  define gap4 where "gap4 = [el 11 ''p'' [], el 12 ''p'' [], el 13 ''p'' [], el 14 ''p'' []]"
  define gap5 where "gap5 = [el 21 ''p'' [], el 22 ''p'' [], el 23 ''p'' [], el 24 ''p'' [], el 25 ''p'' []]"
  have a2: "0 + 1 < length xs" "1 + 1 < length xs" by (simp_all add: xs)
  have a3: "nextSiblings docW (xs ! 0) = gap4 @ el 20 ''tbl'' [] # (gap5 @ [el 30 ''tbl'' []])"
    unfolding xs gap4_def gap5_def by code_simp
  have b3: "nextSiblings docW (xs ! 1) = gap5 @ el 30 ''tbl'' [] # []"
    unfolding xs gap5_def by code_simp
  have a4: "\<forall>g \<in> set gap4. nodeName g = wq ''p'' \<and> trim (textContent g) = [] \<and>
                       \<not> sameNode g (xs ! (0 + 1))"
    unfolding xs gap4_def by code_simp
  have b4: "\<forall>g \<in> set gap5. nodeName g = wq ''p'' \<and> trim (textContent g) = [] \<and>
                       \<not> sameNode g (xs ! (1 + 1))"
    unfolding xs gap5_def by code_simp
  have a5: "nodeName (el 20 ''tbl'' []) = wq ''tbl''" "nodeName (el 30 ''tbl'' []) = wq ''tbl''"
    by (simp_all add: el_def)
  have l: "length gap4 = 4" "length gap5 = 5" by (simp_all add: gap4_def gap5_def)
  from analyzer_gap_threshold[OF xs_def a2(1) a3 a4 a5(1), of "[]" "\<lambda>i. 0"]
       analyzer_gap_threshold[OF xs_def a2(2) b3 b4 a5(2), of "[]" "\<lambda>i. 0"]
  show ?thesis by (simp add: l)
qed

lemma applyAt_none:
  "(\<forall>x \<in> set xs. \<not> P x \<and> (\<forall>d \<in> set (descendants x). \<not> P d)) \<Longrightarrow> applyAtL P f xs = None"
  "(\<forall>d \<in> set (descendants x). \<not> P d) \<Longrightarrow> applyAtIn P f x = None"
proof (induction P f xs and P f x rule: applyAtL_applyAtIn.induct)
  case (1 P f)
  then show ?case by simp
next
  case (2 P f c cs)
  then show ?case by simp
next
  case (3 P f h n as cs)
  have "\<forall>x \<in> set cs. \<not> P x \<and> (\<forall>d \<in> set (descendants x). \<not> P d)"
    using 3(2) by auto
  from 3(1)[OF this] show ?case by simp
next
  case (4 P f d)
  then show ?case by simp
next
  case (5 P f n d)
  then show ?case by simp
qed

lemma applyAtL_at:
  assumes "\<forall>x \<in> set pre. \<not> P x \<and> (\<forall>d \<in> set (descendants x). \<not> P d)" and "P c"
  shows "applyAtL P f (pre @ c # cs) =
           Some (case f c cs of Inl e \<Rightarrow> Inl e | Inr (r, removed) \<Rightarrow> Inr (pre @ r, removed))"
  using assms
proof (induction pre)
  case Nil
  then show ?case by (simp split: sum.splits)
next
  case (Cons x pre)
  have n: "\<not> P x" "applyAtIn P f x = None"
    using Cons.prems(1) applyAt_none(2)[of x P f] by auto
  have "applyAtL P f (pre @ c # cs) =
           Some (case f c cs of Inl e \<Rightarrow> Inl e | Inr (r, removed) \<Rightarrow> Inr (pre @ r, removed))"
    using Cons by simp
  then show ?case using n by (simp split: sum.splits)
qed

lemma applyAtIn_at:
  assumes "\<forall>x \<in> set pre. \<not> P x \<and> (\<forall>d \<in> set (descendants x). \<not> P d)" and "P c"
  shows "applyAtIn P f (Element h n as (pre @ c # cs)) =
           Some (case f c cs of Inl e \<Rightarrow> Inl e
                 | Inr (r, removed) \<Rightarrow> Inr (Element h n as (pre @ r), removed))"
  by (simp add: applyAtL_at[OF assms] split: sum.splits)

lemma applyAt_total:
  "(\<forall>c cs. f c cs \<noteq> Inl e) \<Longrightarrow> applyAtL P f xs \<noteq> Some (Inl e)"
  "(\<forall>c cs. f c cs \<noteq> Inl e) \<Longrightarrow> applyAtIn P f x \<noteq> Some (Inl e)"
proof (induction P f xs and P f x rule: applyAtL_applyAtIn.induct)
  case (1 P f)
  then show ?case by simp
next
  case (2 P f c cs)
  then show ?case by (auto split: option.splits sum.splits)
next
  case (3 P f h n as cs)
  then show ?case by (auto split: option.splits sum.splits)
next
  case (4 P f d)
  then show ?case by simp
next
  case (5 P f n d)
  then show ?case by simp
qed

lemma modifyFirst_total:
  assumes "\<And>c. f c \<noteq> Inl e"
  shows "modifyFirst P f x \<noteq> Some (Inl e)"
proof -
  have "\<forall>c cs. onNode f c cs \<noteq> Inl e"
    using assms by (auto simp: onNode_def bindE_def split: sum.splits)
  from applyAt_total(2)[of "onNode f" e P x, OF this]
  show ?thesis by (auto simp: modifyFirst_def split: option.splits sum.splits)
qed

lemma ensureFirst_total:
  assumes "\<And>c. f c \<noteq> Inl e"
  shows "ensureFirst q f x \<noteq> Inl e"
  using modifyFirst_total[of f e "named q" x, OF assms] assms
  by (auto simp: ensureFirst_def bindE_def split: option.splits sum.splits)

lemma withPPr_total:
  assumes "\<And>c. f c \<noteq> Inl e"
  shows "withPPr f x \<noteq> Inl e"
  using modifyFirst_total[of f e "named (wq ''pPr'')" x, OF assms] assms
  by (auto simp: withPPr_def bindE_def split: option.splits sum.splits)

lemma named_stripTag [simp]: "named q (stripTag q' x) = named q x"
  by (cases x) (simp_all add: named_def)

lemma gebtn_stripTag [simp]: "getElementsByTagName q (stripTag q x) = []"
proof (induction q x rule: stripTag.induct)
  case (1 q h n as cs)
  have "filter (named q) (c' # descendants c') = []"
    if "c' \<in> set (map (stripTag q) (filter (\<lambda>c. \<not> named q c) cs))" for c'
  proof -
    from that obtain c where c: "c \<in> set cs" "\<not> named q c" "c' = stripTag q c" by auto
    from 1[of c] c have "filter (named q) (descendants c') = []"
      by (simp add: getElementsByTagName_def)
    with c show ?thesis by simp
  qed
  then have "\<forall>c \<in> set cs. \<not> named q c \<longrightarrow> filter (named q) (descendants (stripTag q c)) = []"
    by force
  then show ?case
    unfolding getElementsByTagName_def
    by (simp add: filter_concat comp_def)
next
  case (2 q d)
  then show ?case by (simp add: getElementsByTagName_def)
next
  case (3 q n d)
  then show ?case by (simp add: getElementsByTagName_def)
qed

lemma gebtn_appendChildren:
  "getElementsByTagName q (appendChildren xs (Element h n as cs)) =
     getElementsByTagName q (Element h n as cs) @
     concat (map (\<lambda>c. filter (named q) (c # descendants c)) xs)"
  by (simp add: getElementsByTagName_def filter_concat comp_def)

lemma gebtn_named: "x \<in> set (getElementsByTagName q y) \<Longrightarrow> named q x"
  by (simp add: getElementsByTagName_def)

lemma moved_rows:
  assumes "\<forall>r \<in> set rs. named q r"
  shows "concat (map (\<lambda>c. filter (named q) (c # descendants c)) (map (stripTag q) rs)) =
           map (stripTag q) rs"
  using assms
proof (induction rs)
  case Nil
  then show ?case by simp
next
  case (Cons r rs)
  have "filter (named q) (descendants (stripTag q r)) = []"
    using gebtn_stripTag[of q r] by (simp add: getElementsByTagName_def)
  with Cons show ?case by simp
qed

lemma mergeLoop_gap:
  assumes "\<forall>g \<in> set gap. nodeName g \<noteq> wq ''tbl''" and "nodeName t = wq ''tbl''"
  shows "mergeLoop (gap @ t # rest) = (gap, Some (t, rest))"
  using assms by (induction gap) auto

lemma mergeLoop_no_table:
  "\<forall>s \<in> set siblings. nodeName s \<noteq> wq ''tbl'' \<Longrightarrow> mergeLoop siblings = (siblings, None)"
  by (induction siblings) auto

lemma mergeNextStep_merge:
  assumes "\<forall>g \<in> set gap. nodeName g \<noteq> wq ''tbl''" and "nodeName targetTbl = wq ''tbl''"
    and "isElement targetTbl"
  shows "mergeNextStep tblNode (gap @ targetTbl # rest) =
           Inr (appendChildren (map (stripTag (wq ''tr'')) (getElementsByTagName (wq ''tr'') targetTbl))
                  tblNode # rest,
                gap @ [stripTag (wq ''tr'') targetTbl])"
  unfolding mergeNextStep_def by (simp add: mergeLoop_gap[OF assms(1,2)] assms(3) Let_def)

text \<open>
  The merge step inside the parent, for a gap of empty paragraphs: every \<^verbatim>\<open>w:tr\<close>
  descendant of the target table, at any depth, becomes a child of the surviving table;
  the gap nodes and what is left of the target are taken out of the parent.
\<close>

lemma mergeNextStep_moves_all_rows:
  assumes "\<forall>x \<in> set pre. \<not> byHandle (Some k) x \<and> (\<forall>d \<in> set (descendants x). \<not> byHandle (Some k) d)"
    and "tblNode = Element (Some k) tn tas tcs"
    and "\<forall>g \<in> set gap. nodeName g = wq ''p'' \<and> trim (textContent g) = []"
    and "isElement targetTbl" and "nodeName targetTbl = wq ''tbl''"
  shows "\<exists>tblNode' targetTbl'.
           applyAtIn (byHandle (Some k)) mergeNextStep
               (Element h n as (pre @ tblNode # gap @ targetTbl # rest)) =
             Some (Inr (Element h n as (pre @ tblNode' # rest), gap @ [targetTbl'])) \<and>
           length (getElementsByTagName (wq ''tr'') tblNode') =
             length (getElementsByTagName (wq ''tr'') tblNode) +
             length (getElementsByTagName (wq ''tr'') targetTbl) \<and>
           getElementsByTagName (wq ''tr'') targetTbl' = [] \<and>
           childNodes tblNode' =
             childNodes tblNode @
             map (stripTag (wq ''tr'')) (getElementsByTagName (wq ''tr'') targetTbl)"
proof -
  define rows where "rows = getElementsByTagName (wq ''tr'') targetTbl"
  define tblNode' where "tblNode' = appendChildren (map (stripTag (wq ''tr'')) rows) tblNode"
  have g: "\<forall>g \<in> set gap. nodeName g \<noteq> wq ''tbl''"
    using assms(3) by (auto simp: wq_def ascii_def)
  have p: "byHandle (Some k) tblNode" by (simp add: assms(2) byHandle_def)
  have step: "mergeNextStep tblNode (gap @ targetTbl # rest) =
                Inr (tblNode' # rest, gap @ [stripTag (wq ''tr'') targetTbl])"
    unfolding tblNode'_def rows_def by (rule mergeNextStep_merge[OF g assms(5) assms(4)])
  have a: "applyAtIn (byHandle (Some k)) mergeNextStep
               (Element h n as (pre @ tblNode # gap @ targetTbl # rest)) =
             Some (Inr (Element h n as (pre @ tblNode' # rest), gap @ [stripTag (wq ''tr'') targetTbl]))"
    by (subst applyAtIn_at[OF assms(1) p]) (simp add: step)
  have nm: "\<forall>r \<in> set rows. named (wq ''tr'') r"
    unfolding rows_def by (auto dest: gebtn_named)
  have "getElementsByTagName (wq ''tr'') tblNode' =
          getElementsByTagName (wq ''tr'') tblNode @ map (stripTag (wq ''tr'')) rows"
    unfolding tblNode'_def assms(2) gebtn_appendChildren moved_rows[OF nm] by (rule refl)
  then have b: "length (getElementsByTagName (wq ''tr'') tblNode') =
             length (getElementsByTagName (wq ''tr'') tblNode) +
             length (getElementsByTagName (wq ''tr'') targetTbl)"
    by (simp add: rows_def)
  have c: "childNodes tblNode' = childNodes tblNode @ map (stripTag (wq ''tr'')) rows"
    unfolding tblNode'_def assms(2) by simp
  show ?thesis
    using a b c gebtn_stripTag[of "wq ''tr''" targetTbl] unfolding rows_def by blast
qed















text \<open>
  Claim C1 at a table with \<^verbatim>\<open>mergeNext\<close> set that is followed by an empty paragraph, a
  paragraph with the text \<^verbatim>\<open>keep\<close> and a table. The analyzer does not offer the merge
  (\<^verbatim>\<open>canMergeNext\<close> is false), but MODULE\_4\_FIX carries it out: the package it returns
  holds one table with both rows, and the paragraph with its text is gone. The same
  happens to a \<^verbatim>\<open>w:sdt\<close> block with text between the two tables, for which the analyzer
  does offer the merge.
\<close>

theorem merge_deletes_text_paragraph:
  "\<not> canMergeNext (tableInfos (wordDocument [tableOf 10 ''a'', el 30 ''p'' [], textPara 40 ''keep'',
                                             tableOf 50 ''c'']) [] (\<lambda>i. 0) ! 0) \<and>
   MODULE_4_FIX
     (readerOf (wordDocument [tableOf 10 ''a'', el 30 ''p'' [], textPara 40 ''keep'', tableOf 50 ''c'']))
     xmlText
     (Some (packageOf (wordDocument [tableOf 10 ''a'', el 30 ''p'' [], textPara 40 ''keep'',
                                     tableOf 50 ''c''])))
     (Some [conf 0 (noOptions\<lparr>mergeNext := True\<rparr>)]) =
   Inr (fixedPackage (wordDocument [el 10 ''tbl'' [el 11 ''tblPr'' [], rowOf 12 ''a'', rowOf 52 ''c'']])) \<and>
   canMergeNext (tableInfos (wordDocument [tableOf 10 ''a'',
                                           el 30 ''sdt'' [el 31 ''sdtContent'' [textPara 32 ''keep'']],
                                           tableOf 50 ''c'']) [] (\<lambda>i. 0) ! 0) \<and>
   MODULE_4_FIX
     (readerOf (wordDocument [tableOf 10 ''a'', el 30 ''sdt'' [el 31 ''sdtContent'' [textPara 32 ''keep'']],
                              tableOf 50 ''c'']))
     xmlText
     (Some (packageOf (wordDocument [tableOf 10 ''a'',
                                     el 30 ''sdt'' [el 31 ''sdtContent'' [textPara 32 ''keep'']],
                                     tableOf 50 ''c''])))
     (Some [conf 0 (noOptions\<lparr>mergeNext := True\<rparr>)]) =
   Inr (fixedPackage (wordDocument [el 10 ''tbl'' [el 11 ''tblPr'' [], rowOf 12 ''a'', rowOf 52 ''c'']]))"
  by code_simp

text \<open>
  Claim C4 at a table with one row that absorbs, over one empty paragraph, a table with one
  row whose cell holds a table with one row: in the package that MODULE\_4\_FIX returns the
  surviving table has three rows as children, not two. The row of the inner table has
  become a row of the surviving table, after the row that held it, and the inner table
  is left without rows.
\<close>

theorem merge_flattens_nested_rows:
  "MODULE_4_FIX
     (readerOf (wordDocument [tableOf 10 ''a'', el 30 ''p'' [], outerTable]))
     xmlText
     (Some (packageOf (wordDocument [tableOf 10 ''a'', el 30 ''p'' [], outerTable])))
     (Some [conf 0 (noOptions\<lparr>mergeNext := True\<rparr>)]) =
   Inr (fixedPackage (wordDocument
     [el 10 ''tbl''
        [el 11 ''tblPr'' [],
         rowOf 12 ''a'',
         el 52 ''tr'' [el 53 ''tc'' [el 60 ''tbl'' [el 61 ''tblPr'' []], el 70 ''p'' []]],
         rowOf 62 ''inner'']]))"
  by code_simp

lemma mergePass_no_tables: "mergePass [] cfg fr = Inr fr"
proof -
  have "foldl (\<lambda>acc conf.
              bindE acc (\<lambda>fr.
                case find (\<lambda>(k, c). id' c = id' conf) ([]::(nat \<times> Mod4TableInfo) list) of
                  None \<Rightarrow> Inr fr
                | Some (k, c) \<Rightarrow>
                    if mergeNext (options conf) then
                      (case applyForest k mergeNextStep fr of None \<Rightarrow> Inr fr | Some r \<Rightarrow> r)
                    else Inr fr))
           (Inr fr) xs = Inr fr" for xs
    by (induction xs) (simp_all add: bindE_def)
  then show ?thesis unfolding mergePass_def by simp
qed

lemma fixDocument_no_tables:
  assumes "getElementsByTagName (wq ''tbl'') doc = []"
  shows "fixDocument cfg doc = Inr doc"
proof -
  have "tblNodeMap doc cfg = []" by (simp add: tblNodeMap_def assms)
  then show ?thesis
    by (simp add: fixDocument_def mergePass_no_tables repairPass_def bindE_def)
qed

lemma setAttr_fresh: "map_of as k = None \<Longrightarrow> setAttr k v as = as @ [(k, v)]"
  by (induction as) (auto split: if_splits)

text \<open>
  Claim C8 (as amended). For an input package without \<^verbatim>\<open>word/document.xml\<close>,
  MODULE\_4\_FIX does not fail on that account: it parses the empty text instead and, when
  the parser returns a document without tables for the empty text, returns an output
  package in which \<^verbatim>\<open>word/document.xml\<close> is the serialization of that document.
\<close>

theorem missing_part_still_packaged:
  assumes "parts f = Some pzip" and "map_of pzip documentPath = None"
    and "parseFromString [] = Inr doc0"
    and "getElementsByTagName (wq ''tbl'') doc0 = []"
  shows "MODULE_4_FIX parseFromString serializeToString (Some f) (Some cfg) =
           Inr \<lparr> blob = pzip @ [(documentPath, serializeToString doc0)],
                 filename = originalName (name f) (ascii ''doc'') @ ascii ''_fixed.docx'' \<rparr>"
  unfolding MODULE_4_FIX_def
  by (simp add: assms(1,2,3) partText_def Let_def fixDocument_no_tables[OF assms(4)] bindE_def
      setPart_def setAttr_fresh[OF assms(2)])

theorem missing_part_still_packaged_witness:
  "MODULE_4_FIX errorParser outline
     (Some \<lparr> name = ascii ''report.docx'', parts = Some [(ascii ''[Content_Types].xml'', ascii ''<Types/>'')] \<rparr>)
     (Some [conf 0 (noOptions\<lparr>fixBorders := True\<rparr>)]) =
   Inr \<lparr> blob = [(ascii ''[Content_Types].xml'', ascii ''<Types/>''),
                 (ascii ''word/document.xml'', ascii ''<#document><parsererror>no element found</parsererror></#document>'')],
         filename = ascii ''report_fixed.docx'' \<rparr>"
proof -
  define f where "f = \<lparr> name = ascii ''report.docx'', parts = Some [(ascii ''[Content_Types].xml'', ascii ''<Types/>'')] \<rparr>"
  have a1: "parts f = Some [(ascii ''[Content_Types].xml'', ascii ''<Types/>'')]" by (simp add: f_def)
  have a2: "map_of [(ascii ''[Content_Types].xml'', ascii ''<Types/>'')] documentPath = None"
    by (simp add: documentPath_def ascii_def)
  have a3: "errorParser [] = Inr errorDocument" by (simp add: errorParser_def)
  have a4: "getElementsByTagName (wq ''tbl'') errorDocument = []" by code_simp
  have o: "outline errorDocument = ascii ''<#document><parsererror>no element found</parsererror></#document>''"
    by code_simp
  have n: "originalName (name f) (ascii ''doc'') @ ascii ''_fixed.docx'' = ascii ''report_fixed.docx''"
    unfolding f_def by code_simp
  from missing_part_still_packaged[where parseFromString = errorParser and serializeToString = outline
         and cfg = "[conf 0 (noOptions\<lparr>fixBorders := True\<rparr>)]", OF a1 a2 a3 a4]
  show ?thesis unfolding o n by (simp add: f_def documentPath_def)
qed

text \<open>Claim C8 as stated fails: for a package without the main document part the result is
  not an error.\<close>

theorem missing_part_no_error_counterexample:
  "\<not> isl (MODULE_4_FIX errorParser outline
             (Some \<lparr> name = ascii ''report.docx'', parts = Some [(ascii ''[Content_Types].xml'', ascii ''<Types/>'')] \<rparr>)
             (Some []))"
  by code_simp

text \<open>
  Claim C9 at a table whose properties hold a border definition and a tracked change of
  the properties with the former border definition: the first \<^verbatim>\<open>fixBorders\<close> repair
  replaces the border definition, the second one raises \<^verbatim>\<open>NotFoundError\<close>, because
  the first \<^verbatim>\<open>w:tblBorders\<close> descendant is now the one inside the tracked change, which
  is not a child of the properties element.
\<close>

theorem fixBorders_twice_raises:
  "tableStep (noOptions\<lparr>fixBorders := True\<rparr>) trackedTable [] = Inr ([trackedTableFixed], []) \<and>
   tableStep (noOptions\<lparr>fixBorders := True\<rparr>) trackedTableFixed [] = Inl NotFoundError"
  by code_simp

lemma removeFirstL_skip:
  assumes "\<forall>c \<in> set cs. \<not> named q c \<and> getElementsByTagName q c = []" and "named q x"
  shows "removeFirstL q (cs @ x # r) = Inr (cs @ r)"
  using assms by (induction cs) (simp_all add: bindE_def)

text \<open>When the fresh border definition is the only one after the first repair, a second
  repair changes nothing.\<close>

lemma fixBordersPr_again:
  assumes "fixBordersPr tblPr = Inr pr1"
    and "getElementsByTagName (wq ''tblBorders'') pr1 = [newBorders]"
  shows "fixBordersPr pr1 = Inr pr1"
proof (cases tblPr)
  case (Element h n as cs)
  from assms(1) obtain cs' where c: "removeFirstL (wq ''tblBorders'') cs = Inr cs'"
      "pr1 = Element h n as (cs' @ [newBorders])"
    unfolding fixBordersPr_def Element by (auto simp: bindE_def split: sum.splits)
  have nb: "named (wq ''tblBorders'') newBorders"
    by (simp add: newBorders_def named_def)
  have "filter (named (wq ''tblBorders'')) (concat (map (\<lambda>c. c # descendants c) cs')) @
          newBorders # filter (named (wq ''tblBorders'')) (descendants newBorders) = [newBorders]"
    using assms(2) nb unfolding c(2) getElementsByTagName_def by simp
  then have "filter (named (wq ''tblBorders'')) (concat (map (\<lambda>c. c # descendants c) cs')) = []"
    by (simp add: append_eq_Cons_conv)
  then have "\<forall>c \<in> set cs'. \<not> named (wq ''tblBorders'') c \<and> getElementsByTagName (wq ''tblBorders'') c = []"
    unfolding getElementsByTagName_def by (auto simp: filter_empty_conv)
  from removeFirstL_skip[OF this nb, of "[]"] show ?thesis
    unfolding fixBordersPr_def c(2) by (simp add: bindE_def)
next
  case (Text d)
  with assms(1) have "pr1 = Text d" by (simp add: fixBordersPr_def bindE_def)
  with assms(2) show ?thesis by (simp add: getElementsByTagName_def)
next
  case (Misc n d)
  with assms(1) have "pr1 = Misc n d" by (simp add: fixBordersPr_def bindE_def)
  with assms(2) show ?thesis by (simp add: getElementsByTagName_def)
qed

section \<open>Proofs: the Field Filler\<close>

lemma withPPr_element:
  assumes "withPPr f (Element h n as cs) = Inr p1"
  shows "\<exists>cs'. p1 = Element h n as cs'"
  using assms
  by (auto simp: withPPr_def modifyFirst_def bindE_def
           split: option.splits sum.splits)

lemma levelRuns_total: "\<exists>runs. levelRuns (Some pn) po ls = Inr runs"
  by (induction ls) (auto simp: Let_def bindE_def)

lemma levelRuns_comparison:
  assumes "levelRuns (Some pn) (Some pold) ls = Inr runs" and "l \<in> set ls"
    and "map_of pold (ascii ''level'' @ showInt l) = Some v"
  shows "createRun (percentText pold (ascii ''level'' @ showInt l) @ ascii ''% > '' @
                    percentText pn (ascii ''level'' @ showInt l) @ ascii ''%'') True True \<in> set runs"
  using assms
proof (induction ls arbitrary: runs)
  case Nil
  then show ?case by simp
next
  case (Cons a ls)
  obtain rs where rs: "levelRuns (Some pn) (Some pold) ls = Inr rs"
    using levelRuns_total by blast
  show ?case
  proof (cases "l = a")
    case True
    then show ?thesis using Cons.prems(1,3) rs by (auto simp: Let_def bindE_def)
  next
    case False
    then have "l \<in> set ls" using Cons.prems(2) by simp
    from Cons.IH[OF rs this Cons.prems(3)] show ?thesis
      using Cons.prems(1) rs by (auto simp: Let_def bindE_def)
  qed
qed

lemma createRun_red_bold:
  "createRun (a @ ascii ''% > '' @ b) True True =
     Element None (wq ''r'') []
       [Element None (wq ''rPr'') []
          [Element None (wq ''sz'') [(wq ''val'', ascii ''26'')] [],
           Element None (wq ''szCs'') [(wq ''val'', ascii ''26'')] [],
           Element None (wq ''b'') [] [],
           Element None (wq ''color'') [(wq ''val'', ascii ''FF0000'')] []],
        Element None (wq ''t'') [(ascii ''xml:space'', ascii ''preserve'')]
          [Text (a @ ascii ''% > '' @ b)]]"
  by (simp add: createRun_def ascii_def)

text \<open>
  Claim C7 (as amended). When the result has percentages and an old percentage for a
  selected level \<open>l\<close>, the rebuilt summary paragraph has among its children a run in bold
  (\<^verbatim>\<open>w:b\<close>) and red (\<^verbatim>\<open>w:color\<close> \<^verbatim>\<open>FF0000\<close>) whose text is the old percentage,
  \<^verbatim>\<open>"% > "\<close>, the new percentage and \<^verbatim>\<open>"%"\<close>: the comparison is written with
  \<^verbatim>\<open>>\<close>, both numbers with one decimal and a decimal comma.
\<close>

theorem comparison_run_red_bold:
  assumes "percents result = Some pn" and "percentsOld result = Some pold"
    and "l \<in> set levels" and "map_of pold (ascii ''level'' @ showInt l) = Some v"
  shows "\<exists>p'. rebuildSummary result levels fullText (Element h n as cs) = Inr p' \<and>
           Element None (wq ''r'') []
             [Element None (wq ''rPr'') []
                [Element None (wq ''sz'') [(wq ''val'', ascii ''26'')] [],
                 Element None (wq ''szCs'') [(wq ''val'', ascii ''26'')] [],
                 Element None (wq ''b'') [] [],
                 Element None (wq ''color'') [(wq ''val'', ascii ''FF0000'')] []],
              Element None (wq ''t'') [(ascii ''xml:space'', ascii ''preserve'')]
                [Text (percentText pold (ascii ''level'' @ showInt l) @ ascii ''% > '' @
                       percentText pn (ascii ''level'' @ showInt l) @ ascii ''%'')]]
           \<in> set (children p')"
proof -
  let ?centre = "ensureFirst (wq ''jc'') (setAttrs [(wq ''val'', ascii ''center'')])"
  have "\<And>e c. ?centre c \<noteq> Inl e"
    by (rule ensureFirst_total) (simp add: setAttrs_def)
  then have "\<And>e. withPPr ?centre (Element h n as cs) \<noteq> Inl e"
    by (rule withPPr_total)
  then obtain p1 where p1: "withPPr ?centre (Element h n as cs) = Inr p1"
    by (cases "withPPr ?centre (Element h n as cs)") auto
  obtain cs' where cs': "p1 = Element h n as cs'"
    using withPPr_element[OF p1] by blast
  obtain runs where runs: "levelRuns (Some pn) (Some pold) levels = Inr runs"
    using levelRuns_total by blast
  have ne: "levels \<noteq> []" using assms(3) by auto
  have m: "createRun (percentText pold (ascii ''level'' @ showInt l) @ ascii ''% > '' @
                      percentText pn (ascii ''level'' @ showInt l) @ ascii ''%'') True True \<in> set runs"
    by (rule levelRuns_comparison[OF runs assms(3,4)])
  have "rebuildSummary result levels fullText (Element h n as cs) =
          Inr (Element h n as (take 1 (dropWhile (\<lambda>c. nodeName c \<noteq> wq ''pPr'') cs') @
                 [createRun (summaryPrefix fullText @ ascii '' '') False True] @ runs))"
    unfolding rebuildSummary_def p1
    by (simp add: bindE_def Let_def cs' ne assms(1,2) runs)
  then show ?thesis using m unfolding createRun_red_bold by simp
qed

text \<open>The theorem at the levels 1 and 2, with 55.5 per cent now and 40 per cent before for
  level 1.\<close>

theorem comparison_run_red_bold_witness:
  "\<exists>p'. rebuildSummary result0 [1, 2] (summaryHead @ ascii '': x'')
           (Element (Some 20) (wq ''p'') [] [runOf 21 (summaryHead @ ascii '': x'')]) = Inr p' \<and>
         Element None (wq ''r'') []
           [Element None (wq ''rPr'') []
              [Element None (wq ''sz'') [(wq ''val'', ascii ''26'')] [],
               Element None (wq ''szCs'') [(wq ''val'', ascii ''26'')] [],
               Element None (wq ''b'') [] [],
               Element None (wq ''color'') [(wq ''val'', ascii ''FF0000'')] []],
            Element None (wq ''t'') [(ascii ''xml:space'', ascii ''preserve'')]
              [Text (ascii ''40,0% > 55,5%'')]]
         \<in> set (children p')"
proof -
  have a1: "percents result0 = Some [(ascii ''level1'', 111/2)]" by (simp add: result0_def)
  have a2: "percentsOld result0 = Some [(ascii ''level1'', 40)]" by (simp add: result0_def)
  have a3: "(1::int) \<in> set [1, 2]" by simp
  have k: "ascii ''level'' @ showInt 1 = ascii ''level1''" by code_simp
  have a4: "map_of [(ascii ''level1'', 40::rat)] (ascii ''level'' @ showInt 1) = Some 40"
    unfolding k by simp
  have t: "percentText [(ascii ''level1'', 40)] (ascii ''level'' @ showInt 1) @ ascii ''% > '' @
           percentText [(ascii ''level1'', 111/2)] (ascii ''level'' @ showInt 1) @ ascii ''%'' =
           ascii ''40,0% > 55,5%''"
    by code_simp
  from comparison_run_red_bold[OF a1 a2 a3 a4, of "summaryHead @ ascii '': x''" "Some 20"
         "wq ''p''" "[]" "[runOf 21 (summaryHead @ ascii '': x'')]"]
  show ?thesis unfolding t .
qed

text \<open>Claim C7 as stated fails: with 40 per cent before and 55.5 per cent now the runs for
  level 1 are the lead, \<^verbatim>\<open>40,0% > 55,5%\<close> and the full stop; the comparison run is not the
  run with the text \<^verbatim>\<open>40,0% => 55,5%\<close>.\<close>

theorem comparison_arrow_counterexample:
  "levelRuns (Some [(ascii ''level1'', 111/2)]) (Some [(ascii ''level1'', 40)]) [1] =
     Inr [createRun (levelLead 1) False False,
          createRun (ascii ''40,0% > 55,5%'') True True,
          createRun (ascii ''.'') False False] \<and>
   createRun (ascii ''40,0% > 55,5%'') True True \<noteq> createRun (ascii ''40,0% => 55,5%'') True True"
  by code_simp

text \<open>The field filler adds no handle to a paragraph: what it puts into the tree are new
  elements, which carry none.\<close>

lemma handles_descendants:
  "d \<in> set (descendants x) \<Longrightarrow> handleOf d = Some j \<Longrightarrow> j \<in> set (handles x)"
proof (induction x arbitrary: d rule: descendants.induct)
  case (1 h n as cs)
  from 1(2) obtain c where c: "c \<in> set cs" "d = c \<or> d \<in> set (descendants c)" by auto
  have "j \<in> set (handles c)"
  proof (cases "d = c")
    case True
    then show ?thesis using 1(3) by (cases c) auto
  next
    case False
    with c have "d \<in> set (descendants c)" by simp
    from 1(1)[OF c(1) this 1(3)] show ?thesis .
  qed
  with c(1) show ?case by auto
qed simp_all

lemma handles_self: "handleOf x = Some j \<Longrightarrow> j \<in> set (handles x)"
  by (cases x) auto

lemma not_handle_free:
  assumes "j \<notin> set (handles x)"
  shows "\<not> byHandle (Some j) x \<and> (\<forall>d \<in> set (descendants x). \<not> byHandle (Some j) d)"
  using assms handles_self[of x j] handles_descendants[of _ x j]
  by (auto simp: byHandle_def)

lemma byHandle_None: "\<not> byHandle None x"
  by (simp add: byHandle_def)

lemma applyAt_handles:
  "(\<forall>c cs r det. g c cs = Inr (r, det) \<longrightarrow>
       set (concat (map handles r)) \<subseteq> set (handles c) \<union> set (concat (map handles cs))) \<Longrightarrow>
   applyAtL P g xs = Some (Inr (xs', det')) \<Longrightarrow>
   set (concat (map handles xs')) \<subseteq> set (concat (map handles xs))"
  "(\<forall>c cs r det. g c cs = Inr (r, det) \<longrightarrow>
       set (concat (map handles r)) \<subseteq> set (handles c) \<union> set (concat (map handles cs))) \<Longrightarrow>
   applyAtIn P g x = Some (Inr (x', det')) \<Longrightarrow>
   set (handles x') \<subseteq> set (handles x)"
proof (induction P g xs and P g x arbitrary: xs' det' and x' det' rule: applyAtL_applyAtIn.induct)
  case (1 P f)
  then show ?case by simp
next
  case (2 P f c cs)
  show ?case
  proof (cases "P c")
    case True
    with 2(4) have "f c cs = Inr (xs', det')" by simp
    with 2(3) show ?thesis by fastforce
  next
    case False
    show ?thesis
    proof (cases "applyAtIn P f c")
      case None
      with False 2(4) obtain cs' where cs': "applyAtL P f cs = Some (Inr (cs', det'))" "xs' = c # cs'"
        by (auto split: option.splits sum.splits)
      from 2(2)[OF False None 2(3) cs'(1)] cs'(2) show ?thesis by auto
    next
      case (Some r)
      with False 2(4) obtain c' where c': "applyAtIn P f c = Some (Inr (c', det'))" "xs' = c' # cs"
        by (auto split: option.splits sum.splits)
      from 2(1)[OF False 2(3) c'(1)] c'(2) show ?thesis by auto
    qed
  qed
next
  case (3 P f h n as cs)
  from 3(3) obtain cs' where cs': "applyAtL P f cs = Some (Inr (cs', det'))" "x' = Element h n as cs'"
    by (auto split: option.splits sum.splits)
  from 3(1)[OF 3(2) cs'(1)] cs'(2) show ?case by auto
next
  case (4 P f d)
  then show ?case by simp
next
  case (5 P f n d)
  then show ?case by simp
qed

lemma modifyFirst_handles:
  assumes "\<And>c c'. f c = Inr c' \<Longrightarrow> set (handles c') \<subseteq> set (handles c)"
    and "modifyFirst P f x = Some (Inr x')"
  shows "set (handles x') \<subseteq> set (handles x)"
proof -
  have g: "\<forall>c cs r det. onNode f c cs = Inr (r, det) \<longrightarrow>
       set (concat (map handles r)) \<subseteq> set (handles c) \<union> set (concat (map handles cs))"
    using assms(1) by (fastforce simp: onNode_def bindE_def split: sum.splits)
  from assms(2) obtain det where "applyAtIn P (onNode f) x = Some (Inr (x', det))"
    by (auto simp: modifyFirst_def split: option.splits sum.splits)
  from applyAt_handles(2)[OF g this] show ?thesis .
qed

lemma handles_appendChild: "set (handles (appendChild e x)) \<subseteq> set (handles x) \<union> set (handles e)"
  by (cases x) auto

lemma handles_insertFirst: "set (handles (insertFirst e x)) \<subseteq> set (handles x) \<union> set (handles e)"
  by (cases x) auto

lemma handles_createElement [simp]: "handles (createElement q) = []"
  by (simp add: createElement_def)

lemma ensureFirst_handles:
  assumes "\<And>c c'. f c = Inr c' \<Longrightarrow> set (handles c') \<subseteq> set (handles c)"
    and "ensureFirst q f x = Inr x'"
  shows "set (handles x') \<subseteq> set (handles x)"
proof (cases "modifyFirst (named q) f x")
  case None
  with assms(2) obtain e where e: "f (createElement q) = Inr e" "x' = appendChild e x"
    by (auto simp: ensureFirst_def bindE_def split: sum.splits)
  from assms(1)[OF e(1)] have "handles e = []" by simp
  with e(2) handles_appendChild[of e x] show ?thesis by simp
next
  case (Some r)
  with assms(2) have "modifyFirst (named q) f x = Some (Inr x')"
    by (simp add: ensureFirst_def)
  from modifyFirst_handles[OF assms(1) this] show ?thesis by simp
qed

lemma withPPr_handles:
  assumes "\<And>c c'. f c = Inr c' \<Longrightarrow> set (handles c') \<subseteq> set (handles c)"
    and "withPPr f x = Inr x'"
  shows "set (handles x') \<subseteq> set (handles x)"
proof (cases "modifyFirst (named (wq ''pPr'')) f x")
  case None
  with assms(2) obtain e where e: "f (createElement (wq ''pPr'')) = Inr e" "x' = insertFirst e x"
    by (auto simp: withPPr_def bindE_def split: sum.splits)
  from assms(1)[OF e(1)] have "handles e = []" by simp
  with e(2) handles_insertFirst[of e x] show ?thesis by simp
next
  case (Some r)
  with assms(2) have "modifyFirst (named (wq ''pPr'')) f x = Some (Inr x')"
    by (simp add: withPPr_def)
  from modifyFirst_handles[OF assms(1) this] show ?thesis by simp
qed

lemma handles_setAttribute [simp]: "handles (setAttribute k v x) = handles x"
  by (cases x) auto

lemma setAttrs_handles: "setAttrs kvs e = Inr e' \<Longrightarrow> set (handles e') \<subseteq> set (handles e)"
proof -
  have "handles (foldl (\<lambda>x (k, v). setAttribute k v x) e kvs) = handles e"
    by (induction kvs arbitrary: e) (auto split: prod.splits)
  then show "setAttrs kvs e = Inr e' \<Longrightarrow> set (handles e') \<subseteq> set (handles e)"
    by (auto simp: setAttrs_def)
qed

lemma handles_setTextContent: "set (handles (setTextContent s x)) \<subseteq> set (handles x)"
  by (cases x) auto

lemma forEachByHandle_handles:
  assumes "\<And>c c'. f c = Inr c' \<Longrightarrow> set (handles c') \<subseteq> set (handles c)"
  shows "forEachByHandle snapshot f base = Inr r \<Longrightarrow> set (handles r) \<subseteq> set (handles base)"
proof (induction snapshot arbitrary: r rule: rev_induct)
  case Nil
  then show ?case by (simp add: forEachByHandle_def)
next
  case (snoc x xs)
  from snoc(2) obtain r0 where r0: "forEachByHandle xs f base = Inr r0"
      and s: "(case modifyFirst (byHandle (handleOf x)) f r0 of None \<Rightarrow> Inr r0 | Some res \<Rightarrow> res) = Inr r"
    by (auto simp: forEachByHandle_def bindE_def split: sum.splits)
  have "set (handles r) \<subseteq> set (handles r0)"
  proof (cases "modifyFirst (byHandle (handleOf x)) f r0")
    case None
    with s show ?thesis by simp
  next
    case (Some res)
    with s have "modifyFirst (byHandle (handleOf x)) f r0 = Some (Inr r)" by simp
    from modifyFirst_handles[OF assms this] show ?thesis .
  qed
  with snoc(1)[OF r0] show ?case by blast
qed

lemma handles_createRun [simp]: "handles (createRun t r b) = []"
  by (simp add: createRun_def)

lemma levelRuns_handles:
  "levelRuns ps po ls = Inr runs \<Longrightarrow> concat (map handles runs) = []"
proof (induction ls arbitrary: runs)
  case Nil
  then show ?case by simp
next
  case (Cons l ls)
  from Cons(2) obtain pn rs where rs: "ps = Some pn" "levelRuns ps po ls = Inr rs"
    by (auto simp: Let_def bindE_def split: option.splits sum.splits)
  from Cons(2) rs obtain v where "runs = [createRun (levelLead l) False False, v,
        createRun (if ls \<noteq> [] then andText else ascii ''.'') False False] @ rs" "handles v = []"
    by (auto simp: Let_def bindE_def split: option.splits)
  with Cons(1)[OF rs(2)] show ?case by simp
qed

lemma handles_kept:
  "set (concat (map handles (take 1 (dropWhile Q cs)))) \<subseteq> set (concat (map handles cs))"
proof -
  have "set (take 1 (dropWhile Q cs)) \<subseteq> set cs"
    by (meson set_dropWhileD set_take_subset subset_iff)
  then show ?thesis by auto
qed

lemma rebuildSummary_handles:
  assumes "rebuildSummary result levels fullText p = Inr p'"
  shows "set (handles p') \<subseteq> set (handles p)"
proof -
  let ?centre = "ensureFirst (wq ''jc'') (setAttrs [(wq ''val'', ascii ''center'')])"
  from assms obtain p1 runs where p1: "withPPr ?centre p = Inr p1"
    and runs: "(if levels = [] then Inr [createRun noLevelsText False False]
                else levelRuns (percents result) (percentsOld result) levels) = Inr runs"
    and p': "p' = setChildren (take 1 (dropWhile (\<lambda>c. nodeName c \<noteq> wq ''pPr'') (children p1)) @
                     [createRun (summaryPrefix fullText @ ascii '' '') False True] @ runs) p1"
    by (auto simp: rebuildSummary_def bindE_def Let_def split: sum.splits)
  have c: "\<And>c c'. ?centre c = Inr c' \<Longrightarrow> set (handles c') \<subseteq> set (handles c)"
    by (rule ensureFirst_handles[where f = "setAttrs [(wq ''val'', ascii ''center'')]"])
       (auto dest: setAttrs_handles)
  have a: "set (handles p1) \<subseteq> set (handles p)"
    by (rule withPPr_handles[OF c p1])
  have r: "concat (map handles runs) = []"
    using runs levelRuns_handles by (auto split: if_splits)
  have "set (handles p') \<subseteq> set (handles p1)"
    unfolding p' using handles_kept[of "\<lambda>c. nodeName c \<noteq> wq ''pPr''" "children p1"] r
    by (cases p1) auto
  with a show ?thesis by blast
qed

lemma fillInfo_handles:
  assumes "fillInfo infos tNodes fullText p = Inr p'"
  shows "set (handles p') \<subseteq> set (handles p)"
proof (cases "find (\<lambda>(key, value). value \<noteq> [] \<and> labelMatches key fullText) infos")
  case None
  with assms show ?thesis by (simp add: fillInfo_def)
next
  case (Some kv)
  obtain key val where kv: "kv = (key, val)" by (cases kv)
  from assms Some kv obtain p1 where
    p1: "(case modifyFirst (named (wq ''t'')) (\<lambda>t. Inr (setTextContent (key @ ascii '': '' @ val) t)) p of
            None \<Rightarrow> Inr p | Some r \<Rightarrow> r) = Inr p1"
    and r: "forEachByHandle (drop 1 tNodes) (\<lambda>t. Inr (setTextContent [] t)) p1 = Inr p'"
    by (auto simp: fillInfo_def bindE_def split: sum.splits)
  have a: "set (handles p1) \<subseteq> set (handles p)"
  proof (cases "modifyFirst (named (wq ''t'')) (\<lambda>t. Inr (setTextContent (key @ ascii '': '' @ val) t)) p")
    case None
    with p1 show ?thesis by simp
  next
    case (Some res)
    with p1 have m: "modifyFirst (named (wq ''t'')) (\<lambda>t. Inr (setTextContent (key @ ascii '': '' @ val) t)) p =
                    Some (Inr p1)" by simp
    show ?thesis
      by (rule modifyFirst_handles[where f = "\<lambda>t. Inr (setTextContent (key @ ascii '': '' @ val) t)", OF _ m])
         (use handles_setTextContent in auto)
  qed
  have b: "set (handles p') \<subseteq> set (handles p1)"
    by (rule forEachByHandle_handles[where f = "\<lambda>t. Inr (setTextContent [] t)", OF _ r])
       (use handles_setTextContent in auto)
  from a b show ?thesis by blast
qed

lemma fillParagraph_handles:
  "fillParagraph toLowerCase info result levels p = Inr p' \<Longrightarrow> set (handles p') \<subseteq> set (handles p)"
  unfolding fillParagraph_def Let_def
  by (auto dest: rebuildSummary_handles fillInfo_handles split: if_splits)

lemma foldl_Inl:
  "foldl (\<lambda>acc x. bindE acc (g x)) (Inl e) xs = Inl e"
  by (induction xs) (simp_all add: bindE_def)

lemma applyAtL_onNode_append:
  "applyAtL P (onNode f) (xs @ ys) =
     (case applyAtL P (onNode f) xs of
        Some (Inl e) \<Rightarrow> Some (Inl e)
      | Some (Inr (xs', det)) \<Rightarrow> Some (Inr (xs' @ ys, det))
      | None \<Rightarrow>
          (case applyAtL P (onNode f) ys of
             None \<Rightarrow> None
           | Some (Inl e) \<Rightarrow> Some (Inl e)
           | Some (Inr (ys', det)) \<Rightarrow> Some (Inr (xs @ ys', det))))"
proof (induction xs)
  case Nil
  then show ?case by (simp split: option.splits sum.splits)
next
  case (Cons x xs)
  show ?case
  proof (cases "P x")
    case True
    have "onNode f x (xs @ ys) =
            (case onNode f x xs of Inl e \<Rightarrow> Inl e | Inr (r, det) \<Rightarrow> Inr (r @ ys, det))"
      by (simp add: onNode_def bindE_def split: sum.splits)
    with True show ?thesis by (simp split: sum.splits prod.splits)
  next
    case False
    then show ?thesis
      by (simp add: Cons.IH split: option.splits sum.splits prod.splits)
  qed
qed

text \<open>The paragraphs before a child \<open>p\<close> of the body are visited before \<open>p\<close>. Their visits
  change nothing but children of the body other than \<open>p\<close>, so that \<open>p\<close> is found as it
  was when its turn comes.\<close>

lemma modifyFirst_body:
  assumes "h1 \<noteq> Some j" and "h2 \<noteq> Some j"
  shows "modifyFirst (byHandle (Some j)) f
           (Element h0 n0 a0 [Element h1 n1 a1 [Element h2 n2 a2 bs]]) =
         (case applyAtL (byHandle (Some j)) (onNode f) bs of
            None \<Rightarrow> None
          | Some (Inl e) \<Rightarrow> Some (Inl e)
          | Some (Inr (bs', det)) \<Rightarrow>
              Some (Inr (Element h0 n0 a0 [Element h1 n1 a1 [Element h2 n2 a2 bs']])))"
  using assms
  by (simp add: modifyFirst_def byHandle_def split: option.splits sum.splits prod.splits)

lemma step_before:
  assumes "j \<noteq> k" and "j \<notin> set (handles p)" and "h1 \<noteq> Some j" and "h2 \<noteq> Some j"
    and "handleOf p = Some k"
    and pres: "\<And>c c'. f c = Inr c' \<Longrightarrow> set (handles c') \<subseteq> set (handles c)"
    and m: "modifyFirst (byHandle (Some j)) f
              (Element h0 n0 a0 [Element h1 n1 a1 [Element h2 n2 a2 (pre' @ p # post')]]) = Some (Inr r)"
  shows "\<exists>pre'' post''.
           r = Element h0 n0 a0 [Element h1 n1 a1 [Element h2 n2 a2 (pre'' @ p # post'')]] \<and>
           set (concat (map handles pre'')) \<subseteq> set (concat (map handles pre'))"
proof -
  define P where "P = byHandle (Some j)"
  have g: "\<forall>c cs r det. onNode f c cs = Inr (r, det) \<longrightarrow>
       set (concat (map handles r)) \<subseteq> set (handles c) \<union> set (concat (map handles cs))"
    using pres by (fastforce simp: onNode_def bindE_def split: sum.splits)
  from m obtain bs' det where
    bs: "applyAtL P (onNode f) (pre' @ p # post') = Some (Inr (bs', det))"
    and r: "r = Element h0 n0 a0 [Element h1 n1 a1 [Element h2 n2 a2 bs']]"
    unfolding modifyFirst_body[OF assms(3,4)] P_def
    by (auto split: option.splits sum.splits prod.splits)
  have np: "\<not> P p" using assms(1,5) by (simp add: P_def byHandle_def)
  have ni: "applyAtIn P (onNode f) p = None"
    unfolding P_def using not_handle_free[OF assms(2)] by (intro applyAt_none(2)) simp
  show ?thesis
  proof (cases "applyAtL P (onNode f) pre'")
    case None
    with bs np ni obtain post'' where "applyAtL P (onNode f) post' = Some (Inr (post'', det))"
        "bs' = pre' @ p # post''"
      unfolding applyAtL_onNode_append[of P f pre' "p # post'"]
      by (auto split: option.splits sum.splits prod.splits)
    with r show ?thesis by blast
  next
    case (Some res)
    with bs obtain pre'' where p'': "applyAtL P (onNode f) pre' = Some (Inr (pre'', det))"
        "bs' = pre'' @ p # post'"
      unfolding applyAtL_onNode_append[of P f pre' "p # post'"]
      by (auto split: option.splits sum.splits prod.splits)
    from applyAt_handles(1)[OF g p''(1)] p''(2) r show ?thesis by blast
  qed
qed

lemma fold_before:
  assumes "\<forall>x \<in> set xs. \<forall>j. handleOf x = Some j \<longrightarrow>
             j \<noteq> k \<and> j \<notin> set (handles p) \<and> h1 \<noteq> Some j \<and> h2 \<noteq> Some j"
    and "handleOf p = Some k"
    and pres: "\<And>c c'. f c = Inr c' \<Longrightarrow> set (handles c') \<subseteq> set (handles c)"
  shows "isl (forEachByHandle xs f (Element h0 n0 a0 [Element h1 n1 a1 [Element h2 n2 a2 (pre @ p # post)]])) \<or>
         (\<exists>pre'' post''.
            forEachByHandle xs f (Element h0 n0 a0 [Element h1 n1 a1 [Element h2 n2 a2 (pre @ p # post)]]) =
              Inr (Element h0 n0 a0 [Element h1 n1 a1 [Element h2 n2 a2 (pre'' @ p # post'')]]) \<and>
            set (concat (map handles pre'')) \<subseteq> set (concat (map handles pre)))"
  using assms(1)
proof (induction xs rule: rev_induct)
  case Nil
  then show ?case by (auto simp: forEachByHandle_def)
next
  case (snoc x xs)
  define doc where "doc = Element h0 n0 a0 [Element h1 n1 a1 [Element h2 n2 a2 (pre @ p # post)]]"
  have st: "forEachByHandle (xs @ [x]) f doc =
          bindE (forEachByHandle xs f doc)
            (\<lambda>r. case modifyFirst (byHandle (handleOf x)) f r of None \<Rightarrow> Inr r | Some res \<Rightarrow> res)"
    by (simp add: forEachByHandle_def)
  from snoc have ih: "isl (forEachByHandle xs f doc) \<or>
         (\<exists>pre'' post''.
            forEachByHandle xs f doc =
              Inr (Element h0 n0 a0 [Element h1 n1 a1 [Element h2 n2 a2 (pre'' @ p # post'')]]) \<and>
            set (concat (map handles pre'')) \<subseteq> set (concat (map handles pre)))"
    unfolding doc_def by simp
  show ?case
  proof (cases "isl (forEachByHandle xs f doc)")
    case True
    then show ?thesis unfolding doc_def[symmetric] st by (auto simp: bindE_def isl_def)
  next
    case False
    with ih obtain pre1 post1 where
      r1: "forEachByHandle xs f doc =
             Inr (Element h0 n0 a0 [Element h1 n1 a1 [Element h2 n2 a2 (pre1 @ p # post1)]])"
      and s1: "set (concat (map handles pre1)) \<subseteq> set (concat (map handles pre))"
      by blast
    define r where "r = Element h0 n0 a0 [Element h1 n1 a1 [Element h2 n2 a2 (pre1 @ p # post1)]]"
    have e: "forEachByHandle (xs @ [x]) f doc =
               (case modifyFirst (byHandle (handleOf x)) f r of None \<Rightarrow> Inr r | Some res \<Rightarrow> res)"
      unfolding st r1 r_def by (simp add: bindE_def)
    show ?thesis
    proof (cases "modifyFirst (byHandle (handleOf x)) f r")
      case None
      with e r_def s1 show ?thesis unfolding doc_def[symmetric] by auto
    next
      case (Some res)
      show ?thesis
      proof (cases res)
        case (Inl err)
        with Some e show ?thesis unfolding doc_def[symmetric] by simp
      next
        case (Inr r2)
        have "handleOf x \<noteq> None"
        proof
          assume n: "handleOf x = None"
          have "applyAtIn (byHandle None) (onNode f) r = None"
            by (rule applyAt_none(2)) (simp add: byHandle_def)
          with Some n show False by (simp add: modifyFirst_def)
        qed
        then obtain j where j: "handleOf x = Some j" by auto
        with snoc(2) have c: "j \<noteq> k" "j \<notin> set (handles p)" "h1 \<noteq> Some j" "h2 \<noteq> Some j"
          by auto
        from Some Inr j have "modifyFirst (byHandle (Some j)) f r = Some (Inr r2)" by simp
        from step_before[OF c assms(2) pres this[unfolded r_def]]
        obtain pre2 post2 where
          r2: "r2 = Element h0 n0 a0 [Element h1 n1 a1 [Element h2 n2 a2 (pre2 @ p # post2)]]"
          and s2: "set (concat (map handles pre2)) \<subseteq> set (concat (map handles pre1))"
          by blast
        have "forEachByHandle (xs @ [x]) f doc =
                Inr (Element h0 n0 a0 [Element h1 n1 a1 [Element h2 n2 a2 (pre2 @ p # post2)]])"
          unfolding e Some Inr r2 by simp
        moreover have "set (concat (map handles pre2)) \<subseteq> set (concat (map handles pre))"
          using s1 s2 by blast
        ultimately show ?thesis unfolding doc_def[symmetric] by blast
      qed
    qed
  qed
qed

lemma forEach_raises:
  assumes "\<forall>x \<in> set xs. \<forall>j. handleOf x = Some j \<longrightarrow>
             j \<noteq> k \<and> j \<notin> set (handles p) \<and> h1 \<noteq> Some j \<and> h2 \<noteq> Some j"
    and "handleOf p = Some k"
    and pres: "\<And>c c'. f c = Inr c' \<Longrightarrow> set (handles c') \<subseteq> set (handles c)"
    and "k \<notin> set (concat (map handles pre))" and "h1 \<noteq> Some k" and "h2 \<noteq> Some k"
    and "f p = Inl e0"
  shows "isl (forEachByHandle (xs @ p # rest) f
                (Element h0 n0 a0 [Element h1 n1 a1 [Element h2 n2 a2 (pre @ p # post)]]))"
proof -
  define doc where "doc = Element h0 n0 a0 [Element h1 n1 a1 [Element h2 n2 a2 (pre @ p # post)]]"
  define g where "g = (\<lambda>x r. case modifyFirst (byHandle (handleOf x)) f r of
                                None \<Rightarrow> Inr r | Some res \<Rightarrow> res)"
  have sp: "forEachByHandle (xs @ p # rest) f doc =
              foldl (\<lambda>acc x. bindE acc (g x)) (bindE (forEachByHandle xs f doc) (g p)) rest"
    by (simp add: forEachByHandle_def g_def)
  have "\<exists>e. bindE (forEachByHandle xs f doc) (g p) = Inl e"
  proof (cases "isl (forEachByHandle xs f doc)")
    case True
    then show ?thesis by (auto simp: bindE_def isl_def)
  next
    case False
    have "isl (forEachByHandle xs f doc) \<or>
         (\<exists>pre'' post''.
            forEachByHandle xs f doc =
              Inr (Element h0 n0 a0 [Element h1 n1 a1 [Element h2 n2 a2 (pre'' @ p # post'')]]) \<and>
            set (concat (map handles pre'')) \<subseteq> set (concat (map handles pre)))"
      unfolding doc_def by (rule fold_before[OF assms(1,2) pres])
    with False obtain pre1 post1 where
      r1: "forEachByHandle xs f doc =
             Inr (Element h0 n0 a0 [Element h1 n1 a1 [Element h2 n2 a2 (pre1 @ p # post1)]])"
      and s1: "set (concat (map handles pre1)) \<subseteq> set (concat (map handles pre))"
      by blast
    have fr: "\<forall>x \<in> set pre1. \<not> byHandle (Some k) x \<and> (\<forall>d \<in> set (descendants x). \<not> byHandle (Some k) d)"
    proof
      fix x assume "x \<in> set pre1"
      with s1 assms(4) have "k \<notin> set (handles x)" by auto
      from not_handle_free[OF this]
      show "\<not> byHandle (Some k) x \<and> (\<forall>d \<in> set (descendants x). \<not> byHandle (Some k) d)" .
    qed
    have pp: "byHandle (Some k) p" using assms(2) by (simp add: byHandle_def)
    have "modifyFirst (byHandle (Some k)) f
            (Element h0 n0 a0 [Element h1 n1 a1 [Element h2 n2 a2 (pre1 @ p # post1)]]) = Some (Inl e0)"
      unfolding modifyFirst_body[OF assms(5,6)] applyAtL_at[OF fr pp]
      by (simp add: onNode_def bindE_def assms(7))
    then show ?thesis unfolding r1 g_def by (simp add: bindE_def assms(2))
  qed
  then obtain e where "bindE (forEachByHandle xs f doc) (g p) = Inl e" by blast
  then show ?thesis unfolding doc_def[symmetric] sp by (simp add: foldl_Inl)
qed

lemma setAttr_same: "map_of as k = Some v \<Longrightarrow> setAttr k v as = as"
  by (induction as) (auto split: if_splits)

lemma fillParagraph_raises:
  assumes "getElementsByTagName (wq ''t'') p \<noteq> []"
    and "includes' (toLowerCase (concat (map textContent (getElementsByTagName (wq ''t'') p))))
           summaryMarker"
    and "percents result = None" and "levels \<noteq> []"
  shows "fillParagraph toLowerCase info result levels p = Inl TypeError"
proof -
  let ?centre = "ensureFirst (wq ''jc'') (setAttrs [(wq ''val'', ascii ''center'')])"
  have "\<And>e c. ?centre c \<noteq> Inl e"
    by (rule ensureFirst_total) (simp add: setAttrs_def)
  then have "\<And>e. withPPr ?centre p \<noteq> Inl e"
    by (rule withPPr_total)
  then obtain p1 where p1: "withPPr ?centre p = Inr p1"
    by (cases "withPPr ?centre p") auto
  obtain l ls where l: "levels = l # ls" using assms(4) by (cases levels) auto
  have "rebuildSummary result levels fullText p = Inl TypeError" for fullText
    unfolding rebuildSummary_def p1 by (simp add: bindE_def Let_def assms(3) l)
  then show ?thesis
    unfolding fillParagraph_def Let_def using assms(1,2) by simp
qed

lemma paragraphs_of_body:
  "getElementsByTagName (wq ''p'')
     (Element h0 n0 a0 [Element h1 (wq ''document'') a1 [Element h2 (wq ''body'') a2
        (pre @ Element hp (wq ''p'') ap cs # post)]]) =
   concat (map (\<lambda>c. filter (named (wq ''p'')) (c # descendants c)) pre) @
   Element hp (wq ''p'') ap cs #
   (filter (named (wq ''p'')) (descendants (Element hp (wq ''p'') ap cs)) @
    concat (map (\<lambda>c. filter (named (wq ''p'')) (c # descendants c)) post))"
proof -
  have n: "wq ''document'' \<noteq> wq ''p''" "wq ''body'' \<noteq> wq ''p''"
    by (simp_all add: wq_def ascii_def)
  show ?thesis
    unfolding getElementsByTagName_def
    by (simp add: named_def n filter_concat comp_def)
qed

text \<open>Whatever is raised in the body of \<^verbatim>\<open>smartFillXML\<close> is caught there.\<close>

lemma smartFillXML_caught:
  "smartFillBody parseFromString toLowerCase xml info result levels = Inl e \<Longrightarrow>
   smartFillXML parseFromString serializeToString toLowerCase xml info result levels = xml"
  by (simp add: smartFillXML_def)

text \<open>
  Claim C10 (as amended). The main document part is a \<^verbatim>\<open>w:document\<close> with a
  \<^verbatim>\<open>w:body\<close> that has, among its children, a paragraph with the summary marker in its
  text; the analysis result has no \<^verbatim>\<open>percents\<close> and a level is selected. Then the
  field filler raises while it fills the paragraphs (a \<^verbatim>\<open>TypeError\<close> at the summary
  paragraph, if not before), \<^verbatim>\<open>smartFillXML\<close> returns the text it was given, and the
  smart-fill step of GENERATE\_DOCX leaves the parts of the template as they were.
\<close>

theorem missing_percents_keeps_xml:
  assumes "parts f = Some pzip" and "map_of pzip documentPath = Some xml" and "xml \<noteq> []"
    and "parseFromString xml =
           Element h0 n0 a0 [Element h1 (wq ''document'') a1 [Element h2 (wq ''body'') a2
             (pre @ Element (Some k) (wq ''p'') ap cs # post)]]"
    and "distinct (handles (parseFromString xml))"
    and "getElementsByTagName (wq ''t'') (Element (Some k) (wq ''p'') ap cs) \<noteq> []"
    and "includes' (toLowerCase (concat (map textContent
             (getElementsByTagName (wq ''t'') (Element (Some k) (wq ''p'') ap cs))))) summaryMarker"
    and "percents result = None" and "levels \<noteq> []"
  shows "isl (smartFillBody parseFromString toLowerCase xml info result levels) \<and>
         smartFillXML parseFromString serializeToString toLowerCase xml info result levels = xml \<and>
         smartFillStep parseFromString serializeToString toLowerCase
           (Some f) (Some info) (Some result) (Some levels) = Inr pzip"
proof -
  define p where "p = Element (Some k) (wq ''p'') ap cs"
  define fp where "fp = fillParagraph toLowerCase info result levels"
  define xs where "xs = concat (map (\<lambda>c. filter (named (wq ''p'')) (c # descendants c)) pre)"
  define rest where "rest = filter (named (wq ''p'')) (descendants p) @
                            concat (map (\<lambda>c. filter (named (wq ''p'')) (c # descendants c)) post)"
  have d: "distinct ((case h0 of None \<Rightarrow> [] | Some k \<Rightarrow> [k]) @
                     (case h1 of None \<Rightarrow> [] | Some k \<Rightarrow> [k]) @
                     (case h2 of None \<Rightarrow> [] | Some k \<Rightarrow> [k]) @
                     concat (map handles pre) @ handles p @ concat (map handles post))"
    using assms(5) unfolding assms(4) p_def by simp
  have kp: "k \<in> set (handles p)" by (simp add: p_def)
  have k1: "k \<notin> set (concat (map handles pre))" "h1 \<noteq> Some k" "h2 \<noteq> Some k"
    using d kp by (auto split: option.splits)
  have pre: "j \<noteq> k \<and> j \<notin> set (handles p) \<and> h1 \<noteq> Some j \<and> h2 \<noteq> Some j"
    if "j \<in> set (concat (map handles pre))" for j
    using d kp that by (auto split: option.splits)
  have c: "\<forall>x \<in> set xs. \<forall>j. handleOf x = Some j \<longrightarrow>
             j \<noteq> k \<and> j \<notin> set (handles p) \<and> h1 \<noteq> Some j \<and> h2 \<noteq> Some j"
  proof (intro ballI allI impI)
    fix x j assume x: "x \<in> set xs" and j: "handleOf x = Some j"
    from x obtain c where c: "c \<in> set pre" "x = c \<or> x \<in> set (descendants c)"
      unfolding xs_def by auto
    have "j \<in> set (handles c)"
      using c(2) j handles_self[of x j] handles_descendants[of x c j] by auto
    with c(1) have "j \<in> set (concat (map handles pre))" by auto
    from pre[OF this] show "j \<noteq> k \<and> j \<notin> set (handles p) \<and> h1 \<noteq> Some j \<and> h2 \<noteq> Some j" .
  qed
  have hp: "handleOf p = Some k" by (simp add: p_def)
  have r: "fp p = Inl TypeError"
    unfolding fp_def p_def
    by (rule fillParagraph_raises[where toLowerCase = toLowerCase, OF assms(6,7,8,9)])
  have pres: "\<And>c c'. fp c = Inr c' \<Longrightarrow> set (handles c') \<subseteq> set (handles c)"
    unfolding fp_def by (rule fillParagraph_handles)
  have snap: "getElementsByTagName (wq ''p'') (parseFromString xml) = xs @ p # rest"
    unfolding assms(4) paragraphs_of_body xs_def rest_def p_def by simp
  have "isl (forEachByHandle (xs @ p # rest) fp
               (Element h0 n0 a0 [Element h1 (wq ''document'') a1 [Element h2 (wq ''body'') a2
                  (pre @ p # post)]]))"
    by (rule forEach_raises[where f = fp, OF c hp pres k1 r])
  then have "isl (fillParagraphs toLowerCase info result levels (parseFromString xml))"
    unfolding fillParagraphs_def snap fp_def[symmetric] unfolding assms(4) p_def .
  then obtain e where e: "smartFillBody parseFromString toLowerCase xml info result levels = Inl e"
    unfolding smartFillBody_def Let_def by (auto simp: bindE_def isl_def)
  have x: "smartFillXML parseFromString serializeToString toLowerCase xml info result levels = xml"
    by (rule smartFillXML_caught[OF e])
  have "smartFillStep parseFromString serializeToString toLowerCase
           (Some f) (Some info) (Some result) (Some levels) = Inr pzip"
    by (simp add: smartFillStep_def assms(1,2,3) x setPart_def setAttr_same[OF assms(2)])
  with e x show ?thesis by simp
qed

text \<open>The theorem at the report template of the examples and a result without
  percentages: the summary paragraph is the second child of the body.\<close>

theorem missing_percents_keeps_xml_witness:
  "isl (smartFillBody (parserOf reportDoc) lowerCase (xmlText reportDoc) info0 emptyResult [1, 2]) \<and>
   smartFillXML (parserOf reportDoc) xmlText lowerCase (xmlText reportDoc) info0 emptyResult [1, 2] =
     xmlText reportDoc \<and>
   smartFillStep (parserOf reportDoc) xmlText lowerCase
     (Some \<lparr> name = ascii ''template.docx'', parts = Some [(documentPath, xmlText reportDoc)] \<rparr>)
     (Some info0) (Some emptyResult) (Some [1, 2]) =
     Inr [(documentPath, xmlText reportDoc)]"
proof -
  define f where "f = \<lparr> name = ascii ''template.docx'',
                         parts = Some [(documentPath, xmlText reportDoc)] \<rparr>"
  define p where "p = Element (Some 20) (wq ''p'') [] [runOf 21 (summaryHead @ ascii '' danh gia: xxx'')]"
  have a1: "parts f = Some [(documentPath, xmlText reportDoc)]" by (simp add: f_def)
  have a2: "map_of [(documentPath, xmlText reportDoc)] documentPath = Some (xmlText reportDoc)"
    by simp
  have a3: "xmlText reportDoc \<noteq> []" by code_simp
  have a4: "parserOf reportDoc (xmlText reportDoc) =
              Element (Some 0) (ascii ''#document'') []
                [Element (Some 1) (wq ''document'')
                   [(ascii ''xmlns:w'', ascii ''http://schemas.openxmlformats.org/wordprocessingml/2006/main'')]
                   [Element (Some 2) (wq ''body'') []
                      ([hd reportBlocks] @
                       Element (Some 20) (wq ''p'') [] [runOf 21 (summaryHead @ ascii '' danh gia: xxx'')] #
                       drop 2 reportBlocks)]]"
    by (simp add: parserOf_def reportDoc_def wordDocument_def reportBlocks_def el_def)
  have a5: "distinct (handles (parserOf reportDoc (xmlText reportDoc)))"
    unfolding parserOf_def by code_simp
  have a6: "getElementsByTagName (wq ''t'')
              (Element (Some 20) (wq ''p'') [] [runOf 21 (summaryHead @ ascii '' danh gia: xxx'')]) \<noteq> []"
    by code_simp
  have a7: "includes' (lowerCase (concat (map textContent
             (getElementsByTagName (wq ''t'')
                (Element (Some 20) (wq ''p'') [] [runOf 21 (summaryHead @ ascii '' danh gia: xxx'')])))))
             summaryMarker"
    by code_simp
  have a8: "percents emptyResult = None" by (simp add: emptyResult_def)
  have a9: "[1, 2::int] \<noteq> []" by simp
  from missing_percents_keeps_xml[where parseFromString = "parserOf reportDoc"
         and serializeToString = xmlText and toLowerCase = lowerCase and info = info0,
         OF a1 a2 a3 a4 a5 a6 a7 a8 a9]
  show ?thesis unfolding f_def .
qed

text \<open>
  Claim C10 as stated fails at its own example, a text that cannot be parsed: the parser
  raises nothing and returns an error document, so \<^verbatim>\<open>smartFillXML\<close> returns the
  serialization of that error document, and GENERATE\_DOCX writes it over the main
  document part.
\<close>

theorem unparseable_xml_overwrites_part_counterexample:
  "smartFillXML (parserOf reportDoc) xmlText lowerCase (ascii ''<w:document>'') info0 result0 [1, 2] =
     ascii ''<parsererror>no element found</parsererror>'' \<and>
   smartFillStep (parserOf reportDoc) xmlText lowerCase
     (Some \<lparr> name = ascii ''template.docx'', parts = Some [(documentPath, ascii ''<w:document>'')] \<rparr>)
     (Some info0) (Some result0) (Some [1, 2]) =
     Inr [(documentPath, ascii ''<parsererror>no element found</parsererror>'')]"
  by code_simp

end
